theory Spec2Isabelle
  imports Complex_Main "HOL-Library.Sublist" "HOL-Library.List_Lexorder" "HOL-Library.Char_ord"
begin

section \<open>Places: the restaurant REST service over SQLite\<close>

text \<open>
  The repository holds two variants of one Express server. The production variant (the
  JavaScript that follows the project description in \<^verbatim>\<open>src/README.md\<close>) joins four
  lookup tables (cuisines, types, neighborhoods, tags) and writes the associations inside
  a transaction. The development variant \<^verbatim>\<open>src/server.js\<close> is older: it has no
  neighborhoods table, searches in the WHERE clause and does not write associations on
  create. Definitions without a suffix embed the production variant; definitions ending
  in \<open>_dev\<close> embed \<^verbatim>\<open>src/server.js\<close>.

  The database is the state. A handler takes the database and the request and returns
  the HTTP response together with the database it leaves behind. \<^verbatim>\<open>BEGIN TRANSACTION\<close>
  keeps the database of that moment, \<^verbatim>\<open>ROLLBACK\<close> returns it, \<^verbatim>\<open>COMMIT\<close> returns the
  updated one. Statements run in the order in which the handler issues them; the
  callbacks of node-sqlite3 are sequenced, not interleaved.

  Strings are lists of 8-bit characters: a character is one UTF-16 code unit of a
  JavaScript string, and strings with a code unit of 256 or more are outside the model.
  Request fields are typed: a scalar field of a
  JSON body is absent (\<open>None\<close>) or a string, \<open>liked\<close> and \<open>has_happy_hour\<close> are absent
  or boolean, an association list is absent or a list of strings; the path parameter
  \<open>:id\<close> is a row id. JSON \<open>null\<close>, numbers in string position and non-numeric ids
  are outside the model. The columns \<open>created_at\<close> and \<open>updated_at\<close> hold wall-clock
  time and are left out.
\<close>

subsection \<open>JavaScript strings\<close>

definition is_space :: "char \<Rightarrow> bool" where
  \<comment> \<open>what \<^verbatim>\<open>String.prototype.trim\<close> strips: of the white space and line terminators
      of ECMAScript, the code units below 256 are TAB, LF, VT, FF, CR, SP and NBSP\<close>
  "is_space c \<longleftrightarrow>
     c \<in> set [CHR 0x09, CHR 0x0A, CHR 0x0B, CHR 0x0C, CHR 0x0D, CHR '' '', CHR 0xA0]"

definition trim :: "string \<Rightarrow> string" where
  "trim s = rev (dropWhile is_space (rev (dropWhile is_space s)))"

fun split_on :: "char \<Rightarrow> string \<Rightarrow> string list" where
  \<comment> \<open>\<^verbatim>\<open>s.split(d)\<close> for a one-character separator: never the empty array\<close>
  "split_on d [] = [[]]"
| "split_on d (c # cs) =
     (if c = d then [] # split_on d cs
      else (case split_on d cs of [] \<Rightarrow> [[c]] | x # xs \<Rightarrow> (c # x) # xs))"

definition truthy :: "string option \<Rightarrow> bool" where
  \<comment> \<open>\<^verbatim>\<open>if (s)\<close> for a value that is undefined, null or a string\<close>
  "truthy s = (case s of None \<Rightarrow> False | Some t \<Rightarrow> t \<noteq> [])"

definition csv_list :: "string \<Rightarrow> string list" where
  \<comment> \<open>\<^verbatim>\<open>s.split(',').map(c => c.trim()).filter(c => c)\<close>\<close>
  "csv_list s = filter (\<lambda>c. c \<noteq> []) (map trim (split_on CHR '','' s))"

subsection \<open>SQLite text operators\<close>

definition lower :: "char \<Rightarrow> char" where
  \<comment> \<open>LIKE folds the case of the 26 ASCII letters only\<close>
  "lower c =
     (case map_of (zip ''ABCDEFGHIJKLMNOPQRSTUVWXYZ'' ''abcdefghijklmnopqrstuvwxyz'') c of
        None \<Rightarrow> c | Some l \<Rightarrow> l)"

fun like_match :: "string \<Rightarrow> string \<Rightarrow> bool" where
  \<comment> \<open>\<^verbatim>\<open>text LIKE pattern\<close> without ESCAPE: \<^verbatim>\<open>%\<close> is any run of characters,
      \<^verbatim>\<open>_\<close> is any one character, every other character matches up to ASCII case\<close>
  "like_match [] s = (s = [])"
| "like_match (p # ps) s =
     (if p = CHR ''%'' then
        like_match ps s \<or> (case s of [] \<Rightarrow> False | _ # t \<Rightarrow> like_match (p # ps) t)
      else (case s of [] \<Rightarrow> False
            | c # t \<Rightarrow> (p = CHR ''_'' \<or> lower p = lower c) \<and> like_match ps t))"

definition sql_like :: "string option \<Rightarrow> string \<Rightarrow> bool option" where
  \<comment> \<open>a NULL operand makes the comparison NULL\<close>
  "sql_like x pat = map_option (like_match pat) x"

definition sql_eq :: "string option \<Rightarrow> string \<Rightarrow> bool option" where
  "sql_eq x v = map_option (\<lambda>t. t = v) x"

fun sql_or :: "bool option \<Rightarrow> bool option \<Rightarrow> bool option" where
  "sql_or (Some True) _ = Some True"
| "sql_or _ (Some True) = Some True"
| "sql_or (Some False) (Some False) = Some False"
| "sql_or _ _ = None"

fun sql_and :: "bool option \<Rightarrow> bool option \<Rightarrow> bool option" where
  "sql_and (Some False) _ = Some False"
| "sql_and _ (Some False) = Some False"
| "sql_and (Some True) (Some True) = Some True"
| "sql_and _ _ = None"

definition contains_param :: "string \<Rightarrow> string" where
  \<comment> \<open>the bound parameter \<^verbatim>\<open>`%${v}%`\<close>\<close>
  "contains_param v = CHR ''%'' # v @ ''%''"

subsection \<open>The database\<close>

datatype category = Cuisines | Types | Neighborhoods | Tags

record restaurant =
  r_id :: nat
  r_name :: string
  r_neighborhood :: "string option"
  r_borough :: "string option"
  r_status :: "string option"
  r_liked :: int
  r_happy_hour :: "string option"
  r_happy_hour_start_time :: "string option"
  r_happy_hour_end_time :: "string option"
  r_happy_hour_data :: "string option"
  r_has_happy_hour :: int
  r_notes :: "string option"
  r_what_to_order :: "string option"
  r_website_link :: "string option"
  r_latitude :: "real option"
  r_longitude :: "real option"

record lookup_row =
  l_id :: nat
  l_name :: string
  l_color :: "string option"

text \<open>
  \<open>lookup_tab d c\<close> is the table cuisines, types, neighborhoods or tags, in row order;
  \<open>join_tab d c\<close> is restaurant_cuisines, restaurant_types, restaurant_neighborhoods
  or restaurant_tags as pairs (restaurant_id, lookup id), in row order. Only tags have
  a color column; the other lookup rows carry \<open>None\<close> there.
\<close>

record db =
  restaurants :: "restaurant list"
  lookup_tab :: "category \<Rightarrow> lookup_row list"
  join_tab :: "category \<Rightarrow> (nat \<times> nat) list"

text \<open>
  Modelled from the spec: the CREATE TABLE statements are not among the sources. The spec
  gives every table a generated unique id and every lookup table a unique name, so
  \<^verbatim>\<open>INSERT OR IGNORE\<close> of an existing name inserts nothing. What the spec leaves open is a
  parameter: whether the join tables declare the pair (restaurant, lookup) unique, in
  which case a plain \<^verbatim>\<open>INSERT\<close> of an existing pair fails with a constraint error, and
  the default of the column tags.color. No other constraint is taken to exist: a lookup
  name may be empty, and the INSERT into restaurants always succeeds. Foreign keys are
  not enforced: SQLite enforces them only after \<^verbatim>\<open>PRAGMA foreign_keys = ON\<close>, which
  the server never issues.
\<close>

record schema =
  pair_unique :: bool
  tag_color_default :: "string option"

definition next_rowid :: "nat list \<Rightarrow> nat" where
  \<comment> \<open>\<^verbatim>\<open>this.lastID\<close> of an insert: one more than the largest row id in use\<close>
  "next_rowid ids = Suc (fold max ids 0)"

datatype sql_error = Constraint_failed | Aggregate_in_group_by

text \<open>
  The object sent for one restaurant: \<^verbatim>\<open>{...row, liked, cuisines, types, neighborhoods,
  tags}\<close>. \<open>o_row\<close> is the spread row, the other fields are the keys the handler
  overwrites; a tag is the pair (name, color).
\<close>

record restaurant_out =
  o_row :: restaurant
  o_liked :: bool
  o_cuisines :: "string list"
  o_types :: "string list"
  o_neighborhoods :: "string list"
  o_tags :: "(string \<times> string) list"

datatype reply =
    Id_message nat string
  | Message string
  | Error_message string
  | Sql_error_message sql_error
  | Restaurant_object restaurant_out
  | Restaurant_array "restaurant_out list"

type_synonym response = "nat \<times> reply"

subsection \<open>Request bodies\<close>

record body =
  b_name :: "string option"
  b_neighborhood :: "string option"
  b_borough :: "string option"
  b_status :: "string option"
  b_liked :: "bool option"
  b_happy_hour :: "string option"
  b_happy_hour_start_time :: "string option"
  b_happy_hour_end_time :: "string option"
  b_happy_hour_data :: "string option"
  b_has_happy_hour :: "bool option"
  b_notes :: "string option"
  b_what_to_order :: "string option"
  b_website_link :: "string option"
  b_latitude :: "real option"
  b_longitude :: "real option"
  b_cuisines :: "string list option"
  b_types :: "string list option"
  b_neighborhoods :: "string list option"
  b_tags :: "string list option"

definition empty_body :: body where
  "empty_body =
     \<lparr>b_name = None, b_neighborhood = None, b_borough = None, b_status = None,
      b_liked = None, b_happy_hour = None, b_happy_hour_start_time = None,
      b_happy_hour_end_time = None, b_happy_hour_data = None, b_has_happy_hour = None,
      b_notes = None, b_what_to_order = None, b_website_link = None, b_latitude = None,
      b_longitude = None, b_cuisines = None, b_types = None, b_neighborhoods = None,
      b_tags = None\<rparr>"

definition or_default :: "'a \<Rightarrow> 'a option \<Rightarrow> 'a" where
  \<comment> \<open>a destructuring default \<^verbatim>\<open>{ x = dflt } = req.body\<close>\<close>
  "or_default dflt x = (case x of None \<Rightarrow> dflt | Some v \<Rightarrow> v)"

definition bit_of :: "bool \<Rightarrow> int" where
  \<comment> \<open>\<^verbatim>\<open>flag ? 1 : 0\<close>\<close>
  "bit_of flag = (if flag then 1 else 0)"

subsection \<open>Writing the associations\<close>

definition insert_or_ignore :: "schema \<Rightarrow> category \<Rightarrow> string \<Rightarrow> db \<Rightarrow> db" where
  \<comment> \<open>\<^verbatim>\<open>INSERT OR IGNORE INTO <lookup> (name) VALUES (?)\<close>\<close>
  "insert_or_ignore sch cat nm d =
     (if nm \<in> set (map l_name (lookup_tab d cat)) then d
      else d\<lparr>lookup_tab := (lookup_tab d)(cat := lookup_tab d cat @
             [\<lparr>l_id = next_rowid (map l_id (lookup_tab d cat)), l_name = nm,
               l_color = (if cat = Tags then tag_color_default sch else None)\<rparr>])\<rparr>)"

definition insert_link :: "schema \<Rightarrow> category \<Rightarrow> nat \<Rightarrow> string \<Rightarrow> db \<Rightarrow> sql_error + db" where
  \<comment> \<open>\<^verbatim>\<open>INSERT INTO restaurant_<x> (restaurant_id, <x>_id) SELECT ?, id FROM <lookup> WHERE name = ?\<close>\<close>
  "insert_link sch cat rid nm d =
     (let new = map (\<lambda>l. (rid, l_id l)) (filter (\<lambda>l. l_name l = nm) (lookup_tab d cat))
      in if pair_unique sch \<and> (\<not> distinct new \<or> (\<exists>p \<in> set new. p \<in> set (join_tab d cat)))
         then Inl Constraint_failed
         else Inr (d\<lparr>join_tab := (join_tab d)(cat := join_tab d cat @ new)\<rparr>))"

fun link_names :: "schema \<Rightarrow> category \<Rightarrow> nat \<Rightarrow> string list \<Rightarrow> db \<Rightarrow> sql_error + db" where
  \<comment> \<open>one promise per supplied name: ensure the lookup row, then link it\<close>
  "link_names sch cat rid [] d = Inr d"
| "link_names sch cat rid (n # ns) d =
     (case insert_link sch cat rid (trim n) (insert_or_ignore sch cat (trim n) d) of
        Inl e \<Rightarrow> Inl e
      | Inr d' \<Rightarrow> link_names sch cat rid ns d')"

definition and_then :: "sql_error + db \<Rightarrow> (db \<Rightarrow> sql_error + db) \<Rightarrow> sql_error + db" where
  "and_then r f = (case r of Inl e \<Rightarrow> Inl e | Inr d \<Rightarrow> f d)"

definition handleRestaurantRelationships ::
  "schema \<Rightarrow> nat \<Rightarrow> string list \<Rightarrow> string list \<Rightarrow> string list \<Rightarrow> string list \<Rightarrow> db
     \<Rightarrow> sql_error + db" where
  "handleRestaurantRelationships sch rid cuisines types neighborhoods tags d =
     and_then (and_then (and_then
       (link_names sch Cuisines rid cuisines d)
       (link_names sch Types rid types))
       (link_names sch Neighborhoods rid neighborhoods))
       (link_names sch Tags rid tags)"

subsection \<open>POST /api/restaurants\<close>

definition new_row :: "nat \<Rightarrow> string \<Rightarrow> body \<Rightarrow> restaurant" where
  \<comment> \<open>the fifteen values bound to \<^verbatim>\<open>INSERT INTO restaurants\<close>\<close>
  "new_row rid nm b =
     \<lparr>r_id = rid, r_name = trim nm, r_neighborhood = b_neighborhood b,
      r_borough = b_borough b,
      r_status = Some (or_default ''Unvisited'' (b_status b)),
      r_liked = bit_of (or_default False (b_liked b)),
      r_happy_hour = b_happy_hour b,
      r_happy_hour_start_time = b_happy_hour_start_time b,
      r_happy_hour_end_time = b_happy_hour_end_time b,
      r_happy_hour_data = (if truthy (b_happy_hour_data b) then b_happy_hour_data b else None),
      r_has_happy_hour = bit_of (or_default False (b_has_happy_hour b)),
      r_notes = b_notes b, r_what_to_order = b_what_to_order b,
      r_website_link = b_website_link b,
      r_latitude = b_latitude b, r_longitude = b_longitude b\<rparr>"

definition post_restaurant :: "schema \<Rightarrow> db \<Rightarrow> body \<Rightarrow> response \<times> db" where
  "post_restaurant sch d b =
     (case b_name b of
        None \<Rightarrow> ((400, Error_message ''Restaurant name is required''), d)
      | Some nm \<Rightarrow>
          if nm = [] \<or> trim nm = [] then
            ((400, Error_message ''Restaurant name is required''), d)
          else
            (let rid = next_rowid (map r_id (restaurants d));
                 d1 = d\<lparr>restaurants := restaurants d @ [new_row rid nm b]\<rparr>
             in case handleRestaurantRelationships sch rid
                       (or_default [] (b_cuisines b)) (or_default [] (b_types b))
                       (or_default [] (b_neighborhoods b)) (or_default [] (b_tags b)) d1 of
                  Inl e \<Rightarrow> \<comment> \<open>a promise rejected: ROLLBACK\<close>
                    ((500, Sql_error_message e), d)
                | Inr d2 \<Rightarrow> \<comment> \<open>COMMIT\<close>
                    ((200, Id_message rid ''Restaurant created successfully''), d2)))"

definition post_restaurant_dev :: "db \<Rightarrow> body \<Rightarrow> response \<times> db" where
  \<comment> \<open>\<^verbatim>\<open>src/server.js\<close>: the row only, no transaction, the lists are not read\<close>
  "post_restaurant_dev d b =
     (case b_name b of
        None \<Rightarrow> ((400, Error_message ''Restaurant name is required''), d)
      | Some nm \<Rightarrow>
          if nm = [] \<or> trim nm = [] then
            ((400, Error_message ''Restaurant name is required''), d)
          else
            (let rid = next_rowid (map r_id (restaurants d))
             in ((200, Id_message rid ''Restaurant created successfully''),
                 d\<lparr>restaurants := restaurants d @
                    [(new_row rid nm b)\<lparr>r_happy_hour_start_time := None,
                       r_happy_hour_end_time := None, r_happy_hour_data := None,
                       r_has_happy_hour := 0\<rparr>]\<rparr>)))"

subsection \<open>The joined and grouped SELECT\<close>

text \<open>
  Both GET handlers select from restaurants with LEFT JOINs to every join table and its
  lookup table and group by \<^verbatim>\<open>r.id\<close>, the primary key, so there is one group per
  restaurant row. \<open>joined d cat rid\<close> lists the lookup rows that the group of
  restaurant \<open>rid\<close> sees for one category: one per join row whose lookup id exists.
  SQLite leaves the order inside \<^verbatim>\<open>GROUP_CONCAT\<close> open; the model takes the order of
  the join rows and keeps the first of equal values for \<^verbatim>\<open>DISTINCT\<close>.
\<close>

definition joined :: "db \<Rightarrow> category \<Rightarrow> nat \<Rightarrow> lookup_row list" where
  "joined d cat rid =
     concat (map (\<lambda>p. filter (\<lambda>l. l_id l = snd p) (lookup_tab d cat))
                 (filter (\<lambda>p. fst p = rid) (join_tab d cat)))"

fun join_with :: "char \<Rightarrow> string list \<Rightarrow> string" where
  "join_with sep [] = []"
| "join_with sep [x] = x"
| "join_with sep (x # y # ys) = x @ sep # join_with sep (y # ys)"

definition distinct_first :: "'a list \<Rightarrow> 'a list" where
  "distinct_first xs = rev (remdups (rev xs))"

definition non_null :: "'a option list \<Rightarrow> 'a list" where
  "non_null vs = concat (map (\<lambda>v. case v of None \<Rightarrow> [] | Some x \<Rightarrow> [x]) vs)"

definition group_concat :: "string option list \<Rightarrow> string option" where
  \<comment> \<open>\<^verbatim>\<open>GROUP_CONCAT(DISTINCT e)\<close>: NULL values are skipped, no value at all gives NULL\<close>
  "group_concat vs =
     (case distinct_first (non_null vs) of
        [] \<Rightarrow> None
      | x # xs \<Rightarrow> Some (join_with CHR '','' (x # xs)))"

definition agg_names :: "db \<Rightarrow> category \<Rightarrow> nat \<Rightarrow> string option" where
  \<comment> \<open>\<^verbatim>\<open>GROUP_CONCAT(DISTINCT c.name)\<close> and its three siblings\<close>
  "agg_names d cat rid = group_concat (map (\<lambda>l. Some (l_name l)) (joined d cat rid))"

definition agg_tags :: "db \<Rightarrow> nat \<Rightarrow> string option" where
  \<comment> \<open>\<^verbatim>\<open>GROUP_CONCAT(DISTINCT tg.name || ':' || tg.color)\<close>; a NULL color makes the
      concatenation NULL\<close>
  "agg_tags d rid =
     group_concat (map (\<lambda>l. map_option (\<lambda>c. l_name l @ CHR '':'' # c) (l_color l))
                       (joined d Tags rid))"

definition split_list :: "string option \<Rightarrow> string list" where
  \<comment> \<open>\<^verbatim>\<open>row.x ? row.x.split(',') : []\<close>\<close>
  "split_list a = (case a of None \<Rightarrow> [] | Some s \<Rightarrow> if s = [] then [] else split_on CHR '','' s)"

definition parse_tag :: "string \<Rightarrow> string \<times> string" where
  \<comment> \<open>\<^verbatim>\<open>const [name, color] = tag.split(':'); return { name, color: color || '#6B7280' }\<close>\<close>
  "parse_tag tag =
     (case split_on CHR '':'' tag of
        [] \<Rightarrow> ([], ''#6B7280'')
      | [name] \<Rightarrow> (name, ''#6B7280'')
      | name # color # _ \<Rightarrow> (name, if color = [] then ''#6B7280'' else color))"

definition shape :: "db \<Rightarrow> restaurant \<Rightarrow> restaurant_out" where
  "shape d r =
     \<lparr>o_row = r,
      o_liked = (r_liked r \<noteq> 0),
      o_cuisines = split_list (agg_names d Cuisines (r_id r)),
      o_types = split_list (agg_names d Types (r_id r)),
      o_neighborhoods = split_list (agg_names d Neighborhoods (r_id r)),
      o_tags = map parse_tag (split_list (agg_tags d (r_id r)))\<rparr>"

subsection \<open>GET /api/restaurants/:id\<close>

definition get_restaurant :: "db \<Rightarrow> nat \<Rightarrow> response" where
  "get_restaurant d rid =
     (case filter (\<lambda>r. r_id r = rid) (restaurants d) of
        [] \<Rightarrow> (404, Error_message ''Restaurant not found'')
      | r # _ \<Rightarrow> (200, Restaurant_object (shape d r)))"

subsection \<open>GET /api/restaurants\<close>

text \<open>
  The query string is typed: every filter is absent or a string, \<open>q_limit\<close> and
  \<open>q_offset\<close> are absent or the integer that \<^verbatim>\<open>parseInt\<close> returns.
\<close>

record list_query =
  q_search :: "string option"
  q_cuisines :: "string option"
  q_types :: "string option"
  q_tags :: "string option"
  q_neighborhoods :: "string option"
  q_boroughs :: "string option"
  q_status :: "string option"
  q_liked :: "string option"
  q_limit :: "int option"
  q_offset :: "int option"

definition no_filter :: list_query where
  "no_filter =
     \<lparr>q_search = None, q_cuisines = None, q_types = None, q_tags = None,
      q_neighborhoods = None, q_boroughs = None, q_status = None, q_liked = None,
      q_limit = None, q_offset = None\<rparr>"

text \<open>
  The handler appends text to the query and pushes parameters. The model keeps what
  the text means. The WHERE clause is a conjunction. After \<^verbatim>\<open>GROUP BY r.id\<close> come
  clauses of three shapes, each a parenthesised disjunction of \<^verbatim>\<open>e LIKE ?\<close> with its
  parameters: \<^verbatim>\<open> HAVING (...)\<close>, \<^verbatim>\<open> AND (...)\<close> and \<^verbatim>\<open> OR (...)\<close>.
\<close>

datatype operand =
    Col_name | Col_notes | Col_what_to_order | Col_borough | Agg category

type_synonym like_group = "(operand \<times> string) list"

datatype clause = Having like_group | And_group like_group | Or_group like_group

definition where_ok :: "list_query \<Rightarrow> restaurant \<Rightarrow> bool option" where
  \<comment> \<open>\<^verbatim>\<open>WHERE 1=1 [AND r.borough = ?] [AND r.status = ?] [AND r.liked = ?]\<close>\<close>
  "where_ok q r =
     sql_and (sql_and (sql_and (Some True)
       (if truthy (q_boroughs q) then sql_eq (r_borough r) (or_default [] (q_boroughs q))
        else Some True))
       (if truthy (q_status q) then sql_eq (r_status r) (or_default [] (q_status q))
        else Some True))
       (case q_liked q of None \<Rightarrow> Some True
        | Some l \<Rightarrow> Some (r_liked r = bit_of (l = ''true'')))"

definition category_group :: "category \<Rightarrow> string \<Rightarrow> like_group" where
  \<comment> \<open>one \<^verbatim>\<open>GROUP_CONCAT(DISTINCT x.name) LIKE ?\<close> per value of the comma-separated list\<close>
  "category_group cat p = map (\<lambda>v. (Agg cat, contains_param v)) (csv_list p)"

definition filter_clause :: "(like_group \<Rightarrow> clause) \<Rightarrow> category \<Rightarrow> string option \<Rightarrow> clause list" where
  \<comment> \<open>the body shared by the eight branches: nothing is appended for an empty list\<close>
  "filter_clause kw cat p =
     (if length (csv_list (or_default [] p)) > 0
      then [kw (category_group cat (or_default [] p))] else [])"

definition category_clauses :: "list_query \<Rightarrow> clause list" where
  "category_clauses q =
     (let cuisines = truthy (q_cuisines q); neighborhoods = truthy (q_neighborhoods q);
          types = truthy (q_types q); tags = truthy (q_tags q)
      in (if cuisines then filter_clause Having Cuisines (q_cuisines q) else []) @
         (if neighborhoods \<and> \<not> cuisines then
            filter_clause Having Neighborhoods (q_neighborhoods q)
          else if neighborhoods \<and> cuisines then
            filter_clause And_group Neighborhoods (q_neighborhoods q)
          else []) @
         (if types \<and> \<not> cuisines \<and> \<not> neighborhoods then
            filter_clause Having Types (q_types q)
          else if types \<and> (cuisines \<or> neighborhoods) then
            filter_clause And_group Types (q_types q)
          else []) @
         (if tags \<and> (cuisines \<or> types \<or> neighborhoods) then
            filter_clause And_group Tags (q_tags q)
          else if tags \<and> \<not> cuisines \<and> \<not> types \<and> \<not> neighborhoods then
            filter_clause Having Tags (q_tags q)
          else []))"

definition search_group :: "string \<Rightarrow> like_group" where
  \<comment> \<open>allSearchConditions with the eight copies of searchTerm\<close>
  "search_group searchTerm =
     map (\<lambda>e. (e, contains_param searchTerm))
       [Col_name, Col_notes, Col_what_to_order, Col_borough,
        Agg Cuisines, Agg Types, Agg Neighborhoods, Agg Tags]"

fun is_having :: "clause \<Rightarrow> bool" where
  "is_having (Having _) = True"
| "is_having _ = False"

definition having_clauses :: "list_query \<Rightarrow> clause list" where
  "having_clauses q =
     (let cs = category_clauses q
      in if truthy (q_search q) then
           (let hasHavingClause = list_ex is_having cs
            in if hasHavingClause then cs @ [Or_group (search_group (or_default [] (q_search q)))]
               else cs @ [Having (search_group (or_default [] (q_search q)))])
         else cs)"

fun operand_value :: "db \<Rightarrow> restaurant \<Rightarrow> operand \<Rightarrow> string option" where
  "operand_value d r Col_name = Some (r_name r)"
| "operand_value d r Col_notes = r_notes r"
| "operand_value d r Col_what_to_order = r_what_to_order r"
| "operand_value d r Col_borough = r_borough r"
| "operand_value d r (Agg cat) = agg_names d cat (r_id r)"

definition group_value :: "db \<Rightarrow> restaurant \<Rightarrow> like_group \<Rightarrow> bool option" where
  \<comment> \<open>\<^verbatim>\<open>(e1 LIKE ? OR e2 LIKE ? OR ...)\<close>; OR with FALSE changes nothing\<close>
  "group_value d r g =
     foldr (\<lambda>(e, pat) acc. sql_or (sql_like (operand_value d r e) pat) acc) g (Some False)"

text \<open>
  AND binds tighter than OR: \<open>tail_value\<close> continues a conjunction of value \<open>acc\<close>,
  and an \<^verbatim>\<open>OR\<close> starts a new conjunction whose value is the other disjunct. The
  handlers append \<^verbatim>\<open> HAVING (...)\<close> at most once and first (the search branch tests
  \<^verbatim>\<open>query.includes(' HAVING ')\<close>), so the last equation of \<open>tail_value\<close> is never
  reached.
\<close>

fun tail_value :: "db \<Rightarrow> restaurant \<Rightarrow> bool option \<Rightarrow> clause list \<Rightarrow> bool option" where
  "tail_value d r acc [] = acc"
| "tail_value d r acc (And_group g # cs) = tail_value d r (sql_and acc (group_value d r g)) cs"
| "tail_value d r acc (Or_group g # cs) = sql_or acc (tail_value d r (group_value d r g) cs)"
| "tail_value d r acc (Having g # cs) = tail_value d r acc cs"

fun prepare_error :: "clause list \<Rightarrow> sql_error option" where
  \<comment> \<open>\<^verbatim>\<open> AND (...)\<close> or \<^verbatim>\<open> OR (...)\<close> right after \<^verbatim>\<open>GROUP BY r.id\<close> puts an aggregate
      into the GROUP BY expression, which SQLite refuses when it prepares the statement\<close>
  "prepare_error [] = None"
| "prepare_error (Having g # cs) = None"
| "prepare_error (And_group g # cs) = Some Aggregate_in_group_by"
| "prepare_error (Or_group g # cs) = Some Aggregate_in_group_by"

fun having_ok :: "db \<Rightarrow> restaurant \<Rightarrow> clause list \<Rightarrow> bool" where
  \<comment> \<open>a group is kept when the HAVING expression is TRUE, not when it is FALSE or NULL\<close>
  "having_ok d r [] = True"
| "having_ok d r (Having g # cs) = (tail_value d r (group_value d r g) cs = Some True)"
| "having_ok d r (c # cs) = False"

definition limit_offset :: "int \<Rightarrow> int \<Rightarrow> 'a list \<Rightarrow> 'a list" where
  \<comment> \<open>\<^verbatim>\<open>LIMIT ? OFFSET ?\<close>: a negative limit is no limit, a negative offset is 0\<close>
  "limit_offset lmt ofs xs =
     (let ys = drop (nat ofs) xs in if lmt < 0 then ys else take (nat lmt) ys)"

definition matching :: "db \<Rightarrow> list_query \<Rightarrow> restaurant list" where
  \<comment> \<open>the groups that pass WHERE and HAVING, in \<^verbatim>\<open>ORDER BY r.name\<close>\<close>
  "matching d q =
     sort_key r_name
       (filter (\<lambda>r. having_ok d r (having_clauses q))
          (filter (\<lambda>r. where_ok q r = Some True) (restaurants d)))"

definition get_restaurants :: "db \<Rightarrow> list_query \<Rightarrow> response" where
  "get_restaurants d q =
     (case prepare_error (having_clauses q) of
        Some e \<Rightarrow> (500, Sql_error_message e)
      | None \<Rightarrow>
          (200, Restaurant_array
             (map (shape d)
                (limit_offset (or_default 10000 (q_limit q)) (or_default 0 (q_offset q))
                   (matching d q)))))"

subsection \<open>GET /api/restaurants in the development variant\<close>

text \<open>
  \<^verbatim>\<open>src/server.js\<close> searches three columns inside the WHERE clause, filters the legacy
  column neighborhood there as well, has HAVING clauses for cuisines and types only,
  reads no tags parameter and limits to 100 rows. Its objects have no neighborhoods key;
  \<open>o_neighborhoods\<close> is \<open>[]\<close> for them.
\<close>

definition where_ok_dev :: "list_query \<Rightarrow> restaurant \<Rightarrow> bool option" where
  "where_ok_dev q r =
     sql_and (sql_and (sql_and (sql_and (sql_and (Some True)
       (if truthy (q_search q) then
          sql_or (sql_or
            (sql_like (Some (r_name r)) (contains_param (or_default [] (q_search q))))
            (sql_like (r_notes r) (contains_param (or_default [] (q_search q)))))
            (sql_like (r_what_to_order r) (contains_param (or_default [] (q_search q))))
        else Some True))
       (if truthy (q_boroughs q) then sql_eq (r_borough r) (or_default [] (q_boroughs q))
        else Some True))
       (if truthy (q_neighborhoods q) then
          sql_like (r_neighborhood r) (contains_param (or_default [] (q_neighborhoods q)))
        else Some True))
       (if truthy (q_status q) then sql_eq (r_status r) (or_default [] (q_status q))
        else Some True))
       (case q_liked q of None \<Rightarrow> Some True
        | Some l \<Rightarrow> Some (r_liked r = bit_of (l = ''true'')))"

definition having_clauses_dev :: "list_query \<Rightarrow> clause list" where
  "having_clauses_dev q =
     (let cuisines = truthy (q_cuisines q); types = truthy (q_types q)
      in (if cuisines then filter_clause Having Cuisines (q_cuisines q) else []) @
         (if types \<and> \<not> cuisines then filter_clause Having Types (q_types q)
          else if types \<and> cuisines then filter_clause And_group Types (q_types q)
          else []))"

definition shape_dev :: "db \<Rightarrow> restaurant \<Rightarrow> restaurant_out" where
  "shape_dev d r =
     \<lparr>o_row = r,
      o_liked = (r_liked r \<noteq> 0),
      o_cuisines = split_list (agg_names d Cuisines (r_id r)),
      o_types = split_list (agg_names d Types (r_id r)),
      o_neighborhoods = [],
      o_tags = map parse_tag (split_list (agg_tags d (r_id r)))\<rparr>"

definition matching_dev :: "db \<Rightarrow> list_query \<Rightarrow> restaurant list" where
  "matching_dev d q =
     sort_key r_name
       (filter (\<lambda>r. having_ok d r (having_clauses_dev q))
          (filter (\<lambda>r. where_ok_dev q r = Some True) (restaurants d)))"

definition get_restaurants_dev :: "db \<Rightarrow> list_query \<Rightarrow> response" where
  "get_restaurants_dev d q =
     (case prepare_error (having_clauses_dev q) of
        Some e \<Rightarrow> (500, Sql_error_message e)
      | None \<Rightarrow>
          (200, Restaurant_array
             (map (shape_dev d)
                (limit_offset (or_default 100 (q_limit q)) (or_default 0 (q_offset q))
                   (matching_dev d q)))))"

subsection \<open>PUT /api/restaurants/:id\<close>

definition field_update ::
  "'a option \<Rightarrow> ('a \<Rightarrow> restaurant \<Rightarrow> restaurant) \<Rightarrow> (restaurant \<Rightarrow> restaurant) list" where
  \<comment> \<open>\<^verbatim>\<open>if (x !== undefined) { updates.push('x = ?'); params.push(x) }\<close>\<close>
  "field_update x f = (case x of None \<Rightarrow> [] | Some v \<Rightarrow> [f v])"

definition updates :: "body \<Rightarrow> (restaurant \<Rightarrow> restaurant) list" where
  "updates b =
     field_update (b_name b) (\<lambda>v r. r\<lparr>r_name := trim v\<rparr>) @
     field_update (b_neighborhood b) (\<lambda>v r. r\<lparr>r_neighborhood := Some v\<rparr>) @
     field_update (b_borough b) (\<lambda>v r. r\<lparr>r_borough := Some v\<rparr>) @
     field_update (b_status b) (\<lambda>v r. r\<lparr>r_status := Some v\<rparr>) @
     field_update (b_liked b) (\<lambda>v r. r\<lparr>r_liked := bit_of v\<rparr>) @
     field_update (b_happy_hour b) (\<lambda>v r. r\<lparr>r_happy_hour := Some v\<rparr>) @
     field_update (b_happy_hour_start_time b) (\<lambda>v r. r\<lparr>r_happy_hour_start_time := Some v\<rparr>) @
     field_update (b_happy_hour_end_time b) (\<lambda>v r. r\<lparr>r_happy_hour_end_time := Some v\<rparr>) @
     field_update (b_happy_hour_data b) (\<lambda>v r. r\<lparr>r_happy_hour_data := Some v\<rparr>) @
     field_update (b_has_happy_hour b) (\<lambda>v r. r\<lparr>r_has_happy_hour := bit_of v\<rparr>) @
     field_update (b_notes b) (\<lambda>v r. r\<lparr>r_notes := Some v\<rparr>) @
     field_update (b_what_to_order b) (\<lambda>v r. r\<lparr>r_what_to_order := Some v\<rparr>) @
     field_update (b_website_link b) (\<lambda>v r. r\<lparr>r_website_link := Some v\<rparr>) @
     field_update (b_latitude b) (\<lambda>v r. r\<lparr>r_latitude := Some v\<rparr>) @
     field_update (b_longitude b) (\<lambda>v r. r\<lparr>r_longitude := Some v\<rparr>)"

definition update_rows ::
  "(restaurant \<Rightarrow> restaurant) list \<Rightarrow> nat \<Rightarrow> restaurant list \<Rightarrow> restaurant list" where
  \<comment> \<open>\<^verbatim>\<open>UPDATE restaurants SET ... WHERE id = ?\<close>\<close>
  "update_rows us rid rs = map (\<lambda>r. if r_id r = rid then fold (\<lambda>u. u) us r else r) rs"

definition changes_for :: "nat \<Rightarrow> restaurant list \<Rightarrow> nat" where
  \<comment> \<open>\<^verbatim>\<open>this.changes\<close> of a statement with \<^verbatim>\<open>WHERE id = ?\<close>\<close>
  "changes_for rid rs = length (filter (\<lambda>r. r_id r = rid) rs)"

definition delete_links :: "category \<Rightarrow> nat \<Rightarrow> db \<Rightarrow> db" where
  \<comment> \<open>\<^verbatim>\<open>DELETE FROM restaurant_<x> WHERE restaurant_id = ?\<close>\<close>
  "delete_links cat rid d =
     d\<lparr>join_tab := (join_tab d)(cat := filter (\<lambda>p. fst p \<noteq> rid) (join_tab d cat))\<rparr>"

definition update_category ::
  "schema \<Rightarrow> category \<Rightarrow> nat \<Rightarrow> string list \<Rightarrow> db \<Rightarrow> sql_error + db" where
  \<comment> \<open>one of updateCuisinesTypesNeighborhoodsAndTags, updateTypes, updateNeighborhoods,
      updateTags; the guard is the source's \<^verbatim>\<open>list.length >= 0\<close>\<close>
  "update_category sch cat rid names d =
     (if length names \<ge> 0 then
        (let d1 = delete_links cat rid d
         in if length names > 0 then link_names sch cat rid names d1 else Inr d1)
      else Inr d)"

definition updateCuisinesTypesNeighborhoodsAndTags ::
  "schema \<Rightarrow> nat \<Rightarrow> string list \<Rightarrow> string list \<Rightarrow> string list \<Rightarrow> string list \<Rightarrow> db
     \<Rightarrow> sql_error + db" where
  "updateCuisinesTypesNeighborhoodsAndTags sch rid cuisines types neighborhoods tags d =
     and_then (and_then (and_then
       (update_category sch Cuisines rid cuisines d)
       (update_category sch Types rid types))
       (update_category sch Neighborhoods rid neighborhoods))
       (update_category sch Tags rid tags)"

definition put_restaurant :: "schema \<Rightarrow> db \<Rightarrow> nat \<Rightarrow> body \<Rightarrow> response \<times> db" where
  "put_restaurant sch d rid b =
     (let cuisines = or_default [] (b_cuisines b);
          types = or_default [] (b_types b);
          neighborhoods = or_default [] (b_neighborhoods b);
          tags = or_default [] (b_tags b);
          continue = (\<lambda>d1.
            case updateCuisinesTypesNeighborhoodsAndTags sch rid
                   cuisines types neighborhoods tags d1 of
              Inl e \<Rightarrow> \<comment> \<open>ROLLBACK\<close>
                ((500, Sql_error_message e), d)
            | Inr d2 \<Rightarrow> \<comment> \<open>commitTransaction\<close>
                ((200, Message ''Restaurant updated successfully''), d2))
      in if length (updates b) = 0 \<and> length cuisines = 0 \<and> length types = 0
            \<and> length neighborhoods = 0 \<and> length tags = 0 then
           \<comment> \<open>ROLLBACK\<close>
           ((400, Error_message ''No valid fields to update''), d)
         else if length (updates b) > 0 then
           (if changes_for rid (restaurants d) = 0 then
              \<comment> \<open>ROLLBACK\<close>
              ((404, Error_message ''Restaurant not found''), d)
            else continue (d\<lparr>restaurants := update_rows (updates b) rid (restaurants d)\<rparr>))
         else continue d)"

subsection \<open>DELETE /api/restaurants/:id\<close>

definition delete_restaurant :: "db \<Rightarrow> nat \<Rightarrow> response \<times> db" where
  \<comment> \<open>the same text in both variants; restaurant_neighborhoods is not among the deletes\<close>
  "delete_restaurant d rid =
     (let d1 = delete_links Cuisines rid d;
          d2 = delete_links Types rid d1;
          d3 = delete_links Tags rid d2
      in if changes_for rid (restaurants d3) = 0 then
           \<comment> \<open>ROLLBACK: the database of BEGIN TRANSACTION\<close>
           ((404, Error_message ''Restaurant not found''), d)
         else
           \<comment> \<open>COMMIT\<close>
           ((200, Message ''Restaurant deleted successfully''),
            d3\<lparr>restaurants := filter (\<lambda>r. r_id r \<noteq> rid) (restaurants d3)\<rparr>))"

subsection \<open>Schema invariants and views used in the statements\<close>

definition all_categories :: "category list" where
  "all_categories = [Cuisines, Types, Neighborhoods, Tags]"

text \<open>
  Modelled from the spec: the keys that the missing CREATE TABLE statements declare. Ids
  are primary keys and lookup names are unique. That a join row refers to a lookup row
  that exists is declared nowhere; the handlers keep it, because they write a join row by
  selecting the lookup id and never delete a lookup row. Nothing ties a join row to a
  restaurant that exists: foreign keys are not enforced, DELETE leaves the rows of
  restaurant_neighborhoods behind, and a PUT that carries lists only writes join rows for
  an id that is absent. So \<open>keys_ok\<close> says nothing about the restaurant side of a join
  row.
\<close>

definition table_ok :: "db \<Rightarrow> category \<Rightarrow> bool" where
  "table_ok d cat \<longleftrightarrow>
     distinct (map l_id (lookup_tab d cat)) \<and>
     distinct (map l_name (lookup_tab d cat)) \<and>
     (\<forall>p \<in> set (join_tab d cat). snd p \<in> l_id ` set (lookup_tab d cat))"

definition keys_ok :: "db \<Rightarrow> bool" where
  "keys_ok d \<longleftrightarrow>
     distinct (map r_id (restaurants d)) \<and> list_all (table_ok d) all_categories"


definition body_list :: "category \<Rightarrow> body \<Rightarrow> string list" where
  \<comment> \<open>the list a request supplies for a category, \<^verbatim>\<open>[]\<close> when the key is absent\<close>
  "body_list cat b =
     or_default [] (case cat of Cuisines \<Rightarrow> b_cuisines b | Types \<Rightarrow> b_types b
                    | Neighborhoods \<Rightarrow> b_neighborhoods b | Tags \<Rightarrow> b_tags b)"


text \<open>
  The next definitions do not embed code. They say in the words of the specification
  what a list request asks for, so that the handler can be compared with them.
\<close>

definition param_of :: "category \<Rightarrow> list_query \<Rightarrow> string option" where
  "param_of cat q =
     (case cat of Cuisines \<Rightarrow> q_cuisines q | Types \<Rightarrow> q_types q
      | Neighborhoods \<Rightarrow> q_neighborhoods q | Tags \<Rightarrow> q_tags q)"

definition spec_values :: "category \<Rightarrow> list_query \<Rightarrow> string list" where
  \<comment> \<open>the requested values of a category: split at commas, trimmed, blanks dropped\<close>
  "spec_values cat q = csv_list (or_default [] (param_of cat q))"

definition spec_active :: "category \<Rightarrow> list_query \<Rightarrow> bool" where
  \<comment> \<open>the request carries a non-empty parameter for the category\<close>
  "spec_active cat q = truthy (param_of cat q)"

definition spec_well_formed :: "list_query \<Rightarrow> bool" where
  \<comment> \<open>every category parameter that is present names at least one non-blank value\<close>
  "spec_well_formed q =
     list_all (\<lambda>cat. \<not> spec_active cat q \<or> spec_values cat q \<noteq> []) all_categories"

definition spec_value_matches :: "db \<Rightarrow> restaurant \<Rightarrow> category \<Rightarrow> string \<Rightarrow> bool" where
  \<comment> \<open>the comma-joined distinct names of the category contain the value in the sense of
      \<^verbatim>\<open>LIKE '%value%'\<close>\<close>
  "spec_value_matches d r cat v \<longleftrightarrow>
     sql_like (agg_names d cat (r_id r)) (contains_param v) = Some True"

definition spec_category_ok :: "db \<Rightarrow> restaurant \<Rightarrow> list_query \<Rightarrow> category \<Rightarrow> bool" where
  \<comment> \<open>OR inside a category: an active category needs one matching value\<close>
  "spec_category_ok d r q cat \<longleftrightarrow>
     \<not> spec_active cat q \<or> list_ex (spec_value_matches d r cat) (spec_values cat q)"

definition spec_categories_ok :: "db \<Rightarrow> restaurant \<Rightarrow> list_query \<Rightarrow> bool" where
  \<comment> \<open>AND across the categories\<close>
  "spec_categories_ok d r q = list_all (spec_category_ok d r q) all_categories"

definition occurs_ci :: "string \<Rightarrow> string \<Rightarrow> bool" where
  \<comment> \<open>case-insensitive substring\<close>
  "occurs_ci t s \<longleftrightarrow> sublist (map lower t) (map lower s)"

definition spec_text_match :: "db \<Rightarrow> restaurant \<Rightarrow> string \<Rightarrow> bool" where
  \<comment> \<open>the term occurs in name, notes, what_to_order, borough or in a lookup name of the
      restaurant\<close>
  "spec_text_match d r t \<longleftrightarrow>
     occurs_ci t (r_name r) \<or>
     list_ex (occurs_ci t) (non_null [r_notes r, r_what_to_order r, r_borough r]) \<or>
     list_ex (\<lambda>cat. list_ex (\<lambda>l. occurs_ci t (l_name l)) (joined d cat (r_id r)))
       all_categories"

definition spec_page_covers :: "db \<Rightarrow> list_query \<Rightarrow> bool" where
  \<comment> \<open>limit and offset cut nothing off: no offset, and a limit that is absent (10000),
      negative, or at least the number of matches\<close>
  "spec_page_covers d q \<longleftrightarrow>
     or_default 0 (q_offset q) \<le> 0 \<and>
     (or_default 10000 (q_limit q) < 0 \<or>
      int (length (matching d q)) \<le> or_default 10000 (q_limit q))"

definition listed :: "response \<Rightarrow> restaurant_out list" where
  \<comment> \<open>the array of a list response\<close>
  "listed resp = (case snd resp of Restaurant_array obs \<Rightarrow> obs | _ \<Rightarrow> [])"

definition listed_ids :: "response \<Rightarrow> nat list" where
  "listed_ids resp = map (\<lambda>ob. r_id (o_row ob)) (listed resp)"

definition fetched :: "response \<Rightarrow> restaurant_out list" where
  \<comment> \<open>the object of a single-restaurant response\<close>
  "fetched resp = (case snd resp of Restaurant_object ob \<Rightarrow> [ob] | _ \<Rightarrow> [])"

subsection \<open>Example data\<close>

definition strict_schema :: schema where
  \<comment> \<open>join tables with a unique pair, tags.color defaulting to the grey of the client\<close>
  "strict_schema = \<lparr>pair_unique = True, tag_color_default = Some ''#6B7280''\<rparr>"


definition empty_db :: db where
  "empty_db = \<lparr>restaurants = [], lookup_tab = (\<lambda>_. []), join_tab = (\<lambda>_. [])\<rparr>"

definition brunch_db :: db where
  \<comment> \<open>restaurant 1 with the cuisine Italian and the tag brunch\<close>
  "brunch_db =
     \<lparr>restaurants = [new_row 1 ''Lupa'' empty_body],
      lookup_tab = (\<lambda>_. [])
        (Cuisines := [\<lparr>l_id = 1, l_name = ''Italian'', l_color = None\<rparr>],
         Tags := [\<lparr>l_id = 1, l_name = ''brunch'', l_color = Some ''#6B7280''\<rparr>]),
      join_tab = (\<lambda>_. [])(Cuisines := [(1, 1)], Tags := [(1, 1)])\<rparr>"

definition orphan_db :: db where
  \<comment> \<open>as \<open>brunch_db\<close>, with a join row left over for the absent restaurant 7\<close>
  "orphan_db = brunch_db\<lparr>join_tab := (join_tab brunch_db)(Cuisines := [(1, 1), (7, 1)])\<rparr>"

definition town_db :: db where
  \<comment> \<open>five restaurants, each with one cuisine\<close>
  "town_db =
     \<lparr>restaurants =
        [new_row 1 ''Lupa''
           (empty_body\<lparr>b_borough := Some ''Manhattan'', b_notes := Some ''great Negroni''\<rparr>),
         new_row 2 ''Thai Villa'' (empty_body\<lparr>b_borough := Some ''Manhattan''\<rparr>),
         new_row 3 ''Pok Pok'' (empty_body\<lparr>b_borough := Some ''Brooklyn''\<rparr>),
         new_row 4 ''Fusion Hut'' (empty_body\<lparr>b_borough := Some ''Manhattan''\<rparr>),
         new_row 5 ''Dante''
           (empty_body\<lparr>b_borough := Some ''Brooklyn'', b_notes := Some ''negroni bar''\<rparr>)],
      lookup_tab = (\<lambda>_. [])
        (Cuisines := [\<lparr>l_id = 1, l_name = ''Italian'', l_color = None\<rparr>,
                      \<lparr>l_id = 2, l_name = ''Thai'', l_color = None\<rparr>,
                      \<lparr>l_id = 3, l_name = ''Thai Fusion'', l_color = None\<rparr>]),
      join_tab = (\<lambda>_. [])(Cuisines := [(1, 1), (2, 2), (3, 2), (4, 3), (5, 1)])\<rparr>"

section \<open>Properties\<close>

subsection \<open>Strings\<close>

lemma trim_blank: "(\<forall>c \<in> set s. is_space c) \<Longrightarrow> trim s = []"
  by (auto simp: trim_def dest: set_dropWhileD)

text \<open>
  C7. A POST whose name is missing, empty or made of whitespace only is answered with
  status 400, and the database is the one before the request: no restaurant row, no
  lookup row and no association row is written. Both variants of the server agree.
\<close>

theorem post_blank_name_rejected:
  assumes "case b_name b of None \<Rightarrow> True | Some nm \<Rightarrow> \<forall>c \<in> set nm. is_space c"
  shows "post_restaurant sch d b = ((400, Error_message ''Restaurant name is required''), d)
       \<and> post_restaurant_dev d b = ((400, Error_message ''Restaurant name is required''), d)"
  using assms
  by (auto simp: post_restaurant_def post_restaurant_dev_def trim_blank split: option.splits)

theorem post_blank_name_rejected_witness:
  "(case b_name (empty_body\<lparr>b_name := Some ''   ''\<rparr>) of
      None \<Rightarrow> True | Some nm \<Rightarrow> \<forall>c \<in> set nm. is_space c)
   \<and> post_restaurant strict_schema empty_db (empty_body\<lparr>b_name := Some ''   ''\<rparr>)
       = ((400, Error_message ''Restaurant name is required''), empty_db)
   \<and> post_restaurant_dev empty_db (empty_body\<lparr>b_name := Some ''   ''\<rparr>)
       = ((400, Error_message ''Restaurant name is required''), empty_db)"
proof -
  have h: "case b_name (empty_body\<lparr>b_name := Some ''   ''\<rparr>) of
             None \<Rightarrow> True | Some nm \<Rightarrow> \<forall>c \<in> set nm. is_space c"
    by (simp add: is_space_def)
  show ?thesis
    using h post_blank_name_rejected [OF h, of strict_schema empty_db] by simp
qed

subsection \<open>Deleting and updating\<close>

lemma changes_for_absent: "rid \<notin> r_id ` set rs \<Longrightarrow> changes_for rid rs = 0"
  by (induction rs) (auto simp: changes_for_def)

lemma restaurants_delete_links [simp]: "restaurants (delete_links cat rid d) = restaurants d"
  by (simp add: delete_links_def)

text \<open>
  C8. A DELETE for an id that no restaurant row has is answered with status 404 and
  leaves the database as it was before the request: the three deletes issued inside the
  transaction are undone by the rollback, so neither the lookup tables nor any of the
  four association tables change.
\<close>

theorem delete_missing_id_not_found:
  assumes "rid \<notin> r_id ` set (restaurants d)"
  shows "delete_restaurant d rid = ((404, Error_message ''Restaurant not found''), d)"
  using assms by (simp add: delete_restaurant_def Let_def changes_for_absent)

theorem delete_missing_id_not_found_witness:
  "7 \<notin> r_id ` set (restaurants orphan_db)
   \<and> join_tab orphan_db Cuisines = [(1, 1), (7, 1)]
   \<and> join_tab (delete_links Cuisines 7 orphan_db) Cuisines = [(1, 1)]
   \<and> delete_restaurant orphan_db 7 = ((404, Error_message ''Restaurant not found''), orphan_db)"
proof -
  have h: "7 \<notin> r_id ` set (restaurants orphan_db)"
    by (simp add: orphan_db_def brunch_db_def new_row_def)
  have "join_tab orphan_db Cuisines = [(1, 1), (7, 1)]"
    by (simp add: orphan_db_def)
  moreover have "join_tab (delete_links Cuisines 7 orphan_db) Cuisines = [(1, 1)]"
    by (simp add: orphan_db_def delete_links_def)
  ultimately show ?thesis
    using h delete_missing_id_not_found [OF h] by simp
qed

subsection \<open>Row ids, lookup rows and join rows\<close>

lemma fold_max_ge: "(a::nat) \<le> fold max ids a"
  by (induction ids arbitrary: a) (auto intro: order_trans [OF max.cobounded2])

lemma fold_max_mem: "i \<in> set ids \<Longrightarrow> (i::nat) \<le> fold max ids a"
proof (induction ids arbitrary: a)
  case Nil
  then show ?case by simp
next
  case (Cons x xs)
  show ?case
  proof (cases "i = x")
    case True
    have "x \<le> max x a" by simp
    also have "\<dots> \<le> fold max xs (max x a)" by (rule fold_max_ge)
    finally show ?thesis using True by simp
  next
    case False
    with Cons show ?thesis by simp
  qed
qed

lemma next_rowid_fresh: "i \<in> set ids \<Longrightarrow> i < next_rowid ids"
  by (simp add: next_rowid_def fold_max_mem less_Suc_eq_le)

lemma next_rowid_notin: "next_rowid ids \<notin> set ids"
  using next_rowid_fresh by blast

lemma filter_key_single:
  "distinct (map f xs) \<Longrightarrow> x \<in> set xs \<Longrightarrow> filter (\<lambda>y. f y = f x) xs = [x]"
proof (induction xs)
  case Nil
  then show ?case by simp
next
  case (Cons a xs)
  show ?case
  proof (cases "a = x")
    case True
    with Cons.prems have "\<forall>y \<in> set xs. f y \<noteq> f x" by (fastforce simp: image_iff)
    then have "filter (\<lambda>y. f y = f x) xs = []" by (simp add: filter_empty_conv)
    with True show ?thesis by simp
  next
    case False
    with Cons show ?thesis by auto
  qed
qed

lemma joined_cong:
  "lookup_tab d' cat = lookup_tab d cat \<Longrightarrow> join_tab d' cat = join_tab d cat
   \<Longrightarrow> joined d' cat r = joined d cat r"
  by (simp add: joined_def)

lemma insert_or_ignore_frame:
  "restaurants (insert_or_ignore sch cat nm d) = restaurants d"
  "join_tab (insert_or_ignore sch cat nm d) = join_tab d"
  "c \<noteq> cat \<Longrightarrow> lookup_tab (insert_or_ignore sch cat nm d) c = lookup_tab d c"
  by (simp_all add: insert_or_ignore_def)

lemma insert_or_ignore_names:
  "nm \<in> l_name ` set (lookup_tab (insert_or_ignore sch cat nm d) cat)"
  by (auto simp: insert_or_ignore_def)

lemma insert_or_ignore_rows:
  "x \<in> set (lookup_tab (insert_or_ignore sch cat nm d) cat) \<Longrightarrow>
     x \<in> set (lookup_tab d cat) \<or>
     (l_name x = nm \<and> l_color x = (if cat = Tags then tag_color_default sch else None))"
  by (auto simp: insert_or_ignore_def split: if_splits)

lemma insert_or_ignore_ok:
  assumes "table_ok d cat"
  shows "table_ok (insert_or_ignore sch cat nm d) cat"
proof (cases "nm \<in> set (map l_name (lookup_tab d cat))")
  case True
  with assms show ?thesis by (simp add: insert_or_ignore_def)
next
  case False
  have fresh: "next_rowid (map l_id (lookup_tab d cat)) \<notin> l_id ` set (lookup_tab d cat)"
    using next_rowid_notin [of "map l_id (lookup_tab d cat)"] by simp
  from False assms fresh show ?thesis
    by (auto simp: insert_or_ignore_def table_ok_def)
qed

lemma insert_or_ignore_joined:
  assumes "table_ok d cat"
  shows "joined (insert_or_ignore sch cat nm d) c r = joined d c r"
proof (cases "c = cat \<and> nm \<notin> set (map l_name (lookup_tab d cat))")
  case False
  then show ?thesis
    by (auto simp: insert_or_ignore_def joined_def)
next
  case True
  let ?new = "next_rowid (map l_id (lookup_tab d cat))"
  have fresh: "?new \<notin> l_id ` set (lookup_tab d cat)"
    using next_rowid_notin [of "map l_id (lookup_tab d cat)"] by simp
  have "\<forall>p \<in> set (join_tab d cat). snd p \<noteq> ?new"
    using assms fresh by (auto simp: table_ok_def)
  then have "\<forall>p \<in> set (filter (\<lambda>p. fst p = r) (join_tab d cat)). ?new \<noteq> snd p"
    by auto
  then show ?thesis
    using True by (auto simp: insert_or_ignore_def joined_def intro!: arg_cong [where f = concat])
qed

lemma joined_mem:
  "(r, l_id l) \<in> set (join_tab d cat) \<Longrightarrow> l \<in> set (lookup_tab d cat) \<Longrightarrow> l \<in> set (joined d cat r)"
  by (force simp: joined_def)

lemma insert_link_ok:
  assumes ok: "table_ok d cat"
    and ex: "nm \<in> l_name ` set (lookup_tab d cat)"
    and uniq: "pair_unique sch \<longrightarrow> nm \<notin> l_name ` set (joined d cat rid)"
  shows "\<exists>l. l \<in> set (lookup_tab d cat) \<and> l_name l = nm \<and>
             insert_link sch cat rid nm d =
               Inr (d\<lparr>join_tab := (join_tab d)(cat := join_tab d cat @ [(rid, l_id l)])\<rparr>)"
proof -
  from ex obtain l where l: "l \<in> set (lookup_tab d cat)" "l_name l = nm" by auto
  from ok have "distinct (map l_name (lookup_tab d cat))" by (simp add: table_ok_def)
  from filter_key_single [OF this l(1)] l(2)
  have one: "filter (\<lambda>x. l_name x = nm) (lookup_tab d cat) = [l]" by simp
  have "(rid, l_id l) \<notin> set (join_tab d cat)" if "pair_unique sch"
  proof
    assume "(rid, l_id l) \<in> set (join_tab d cat)"
    then have "l \<in> set (joined d cat rid)" using l(1) by (rule joined_mem)
    with l(2) uniq that show False by auto
  qed
  then have "insert_link sch cat rid nm d =
      Inr (d\<lparr>join_tab := (join_tab d)(cat := join_tab d cat @ [(rid, l_id l)])\<rparr>)"
    by (auto simp: insert_link_def one)
  with l show ?thesis by blast
qed

lemma joined_after_link:
  fixes d :: db and cat :: category and rid :: nat and l :: lookup_row
  defines "d' \<equiv> d\<lparr>join_tab := (join_tab d)(cat := join_tab d cat @ [(rid, l_id l)])\<rparr>"
  assumes ok: "table_ok d cat" and l: "l \<in> set (lookup_tab d cat)"
  shows "joined d' cat rid = joined d cat rid @ [l]"
    and "r \<noteq> rid \<Longrightarrow> joined d' cat r = joined d cat r"
    and "c \<noteq> cat \<Longrightarrow> joined d' c r = joined d c r"
    and "table_ok d' cat"
proof -
  from ok have "distinct (map l_id (lookup_tab d cat))" by (simp add: table_ok_def)
  from filter_key_single [OF this l]
  have one: "filter (\<lambda>x. l_id x = l_id l) (lookup_tab d cat) = [l]" .
  show "joined d' cat rid = joined d cat rid @ [l]"
    by (simp add: joined_def d'_def one)
  show "r \<noteq> rid \<Longrightarrow> joined d' cat r = joined d cat r"
    by (simp add: joined_def d'_def)
  show "c \<noteq> cat \<Longrightarrow> joined d' c r = joined d c r"
    by (simp add: joined_def d'_def)
  show "table_ok d' cat"
    using ok l by (auto simp: table_ok_def d'_def)
qed

lemma link_step:
  assumes ok: "table_ok d cat"
    and uniq: "pair_unique sch \<longrightarrow> nm \<notin> l_name ` set (joined d cat rid)"
  shows "\<exists>d' l. insert_link sch cat rid nm (insert_or_ignore sch cat nm d) = Inr d'
           \<and> restaurants d' = restaurants d
           \<and> (\<forall>c. c \<noteq> cat \<longrightarrow> lookup_tab d' c = lookup_tab d c \<and> join_tab d' c = join_tab d c)
           \<and> table_ok d' cat
           \<and> joined d' cat rid = joined d cat rid @ [l] \<and> l_name l = nm
           \<and> (\<forall>r. r \<noteq> rid \<longrightarrow> joined d' cat r = joined d cat r)
           \<and> (\<forall>x \<in> set (lookup_tab d' cat). x \<in> set (lookup_tab d cat) \<or>
                 l_color x = (if cat = Tags then tag_color_default sch else None))
           \<and> (\<forall>p \<in> set (join_tab d' cat). p \<in> set (join_tab d cat) \<or> fst p = rid)"
proof -
  let ?d2 = "insert_or_ignore sch cat nm d"
  have ok2: "table_ok ?d2 cat" using ok by (rule insert_or_ignore_ok)
  have j2: "joined ?d2 cat r = joined d cat r" for r
    using ok by (rule insert_or_ignore_joined)
  have uniq2: "pair_unique sch \<longrightarrow> nm \<notin> l_name ` set (joined ?d2 cat rid)"
    using uniq by (simp add: j2)
  from insert_link_ok [OF ok2 insert_or_ignore_names uniq2]
  obtain l where l: "l \<in> set (lookup_tab ?d2 cat)" "l_name l = nm"
    and res: "insert_link sch cat rid nm ?d2 =
        Inr (?d2\<lparr>join_tab := (join_tab ?d2)(cat := join_tab ?d2 cat @ [(rid, l_id l)])\<rparr>)"
    by blast
  let ?d3 = "?d2\<lparr>join_tab := (join_tab ?d2)(cat := join_tab ?d2 cat @ [(rid, l_id l)])\<rparr>"
  note after = joined_after_link [OF ok2 l(1), where rid = rid]
  have "restaurants ?d3 = restaurants d"
    by (simp add: insert_or_ignore_frame)
  moreover have "\<forall>c. c \<noteq> cat \<longrightarrow> lookup_tab ?d3 c = lookup_tab d c \<and> join_tab ?d3 c = join_tab d c"
    by (simp add: insert_or_ignore_frame)
  moreover have "table_ok ?d3 cat" by (rule after(4))
  moreover have "joined ?d3 cat rid = joined d cat rid @ [l]"
    using after(1) by (simp add: j2)
  moreover have "\<forall>r. r \<noteq> rid \<longrightarrow> joined ?d3 cat r = joined d cat r"
    using after(2) by (simp add: j2)
  moreover have "\<forall>x \<in> set (lookup_tab ?d3 cat). x \<in> set (lookup_tab d cat) \<or>
                 l_color x = (if cat = Tags then tag_color_default sch else None)"
    using insert_or_ignore_rows [of _ sch cat nm d] by fastforce
  moreover have "\<forall>p \<in> set (join_tab ?d3 cat). p \<in> set (join_tab d cat) \<or> fst p = rid"
    by (auto simp: insert_or_ignore_frame)
  ultimately show ?thesis using res l(2) by blast
qed

lemma link_names_ok:
  assumes "table_ok d cat"
    and "pair_unique sch \<longrightarrow>
           distinct (map trim ns) \<and> set (map trim ns) \<inter> l_name ` set (joined d cat rid) = {}"
  shows "\<exists>d'. link_names sch cat rid ns d = Inr d'
           \<and> restaurants d' = restaurants d
           \<and> (\<forall>c. c \<noteq> cat \<longrightarrow> lookup_tab d' c = lookup_tab d c \<and> join_tab d' c = join_tab d c)
           \<and> table_ok d' cat
           \<and> map l_name (joined d' cat rid) = map l_name (joined d cat rid) @ map trim ns
           \<and> (\<forall>r. r \<noteq> rid \<longrightarrow> joined d' cat r = joined d cat r)
           \<and> (\<forall>x \<in> set (lookup_tab d' cat). x \<in> set (lookup_tab d cat) \<or>
                 l_color x = (if cat = Tags then tag_color_default sch else None))
           \<and> (\<forall>p \<in> set (join_tab d' cat). p \<in> set (join_tab d cat) \<or> fst p = rid)"
  using assms
proof (induction ns arbitrary: d)
  case Nil
  then show ?case by simp
next
  case (Cons n ns)
  have uniq: "pair_unique sch \<longrightarrow> trim n \<notin> l_name ` set (joined d cat rid)"
    using Cons.prems(2) by auto
  from link_step [OF Cons.prems(1) uniq]
  obtain d1 l where step: "insert_link sch cat rid (trim n) (insert_or_ignore sch cat (trim n) d) = Inr d1"
    and r1: "restaurants d1 = restaurants d"
    and f1: "\<forall>c. c \<noteq> cat \<longrightarrow> lookup_tab d1 c = lookup_tab d c \<and> join_tab d1 c = join_tab d c"
    and ok1: "table_ok d1 cat"
    and j1: "joined d1 cat rid = joined d cat rid @ [l]" "l_name l = trim n"
    and o1: "\<forall>r. r \<noteq> rid \<longrightarrow> joined d1 cat r = joined d cat r"
    and c1: "\<forall>x \<in> set (lookup_tab d1 cat). x \<in> set (lookup_tab d cat) \<or>
                 l_color x = (if cat = Tags then tag_color_default sch else None)"
    and p1: "\<forall>p \<in> set (join_tab d1 cat). p \<in> set (join_tab d cat) \<or> fst p = rid"
    by blast
  have pre: "pair_unique sch \<longrightarrow>
      distinct (map trim ns) \<and> set (map trim ns) \<inter> l_name ` set (joined d1 cat rid) = {}"
    using Cons.prems(2) j1 by auto
  from Cons.IH [OF ok1 pre]
  obtain d2 where rest: "link_names sch cat rid ns d1 = Inr d2"
    and r2: "restaurants d2 = restaurants d1"
    and f2: "\<forall>c. c \<noteq> cat \<longrightarrow> lookup_tab d2 c = lookup_tab d1 c \<and> join_tab d2 c = join_tab d1 c"
    and ok2: "table_ok d2 cat"
    and j2: "map l_name (joined d2 cat rid) = map l_name (joined d1 cat rid) @ map trim ns"
    and o2: "\<forall>r. r \<noteq> rid \<longrightarrow> joined d2 cat r = joined d1 cat r"
    and c2: "\<forall>x \<in> set (lookup_tab d2 cat). x \<in> set (lookup_tab d1 cat) \<or>
                 l_color x = (if cat = Tags then tag_color_default sch else None)"
    and p2: "\<forall>p \<in> set (join_tab d2 cat). p \<in> set (join_tab d1 cat) \<or> fst p = rid"
    by blast
  have "link_names sch cat rid (n # ns) d = Inr d2"
    using step rest by simp
  moreover have "restaurants d2 = restaurants d" using r1 r2 by simp
  moreover have "\<forall>c. c \<noteq> cat \<longrightarrow> lookup_tab d2 c = lookup_tab d c \<and> join_tab d2 c = join_tab d c"
    using f1 f2 by simp
  moreover have "map l_name (joined d2 cat rid) = map l_name (joined d cat rid) @ map trim (n # ns)"
    using j1 j2 by simp
  moreover have "\<forall>r. r \<noteq> rid \<longrightarrow> joined d2 cat r = joined d cat r"
    using o1 o2 by simp
  moreover have "\<forall>x \<in> set (lookup_tab d2 cat). x \<in> set (lookup_tab d cat) \<or>
                 l_color x = (if cat = Tags then tag_color_default sch else None)"
    using c1 c2 by blast
  moreover have "\<forall>p \<in> set (join_tab d2 cat). p \<in> set (join_tab d cat) \<or> fst p = rid"
    using p1 p2 by blast
  ultimately show ?case using ok2 by blast
qed

lemma table_ok_cong:
  "lookup_tab d' cat = lookup_tab d cat \<Longrightarrow> join_tab d' cat = join_tab d cat
   \<Longrightarrow> table_ok d' cat = table_ok d cat"
  by (simp add: table_ok_def)

lemma joined_no_rows: "rid \<notin> fst ` set (join_tab d cat) \<Longrightarrow> joined d cat rid = []"
  by (force simp: joined_def filter_empty_conv)

lemma relationships_ok:
  assumes ok: "\<And>cat. table_ok d cat"
    and pre: "pair_unique sch \<longrightarrow>
        (distinct (map trim cs) \<and> set (map trim cs) \<inter> l_name ` set (joined d Cuisines rid) = {})
      \<and> (distinct (map trim ts) \<and> set (map trim ts) \<inter> l_name ` set (joined d Types rid) = {})
      \<and> (distinct (map trim ns) \<and>
           set (map trim ns) \<inter> l_name ` set (joined d Neighborhoods rid) = {})
      \<and> (distinct (map trim gs) \<and> set (map trim gs) \<inter> l_name ` set (joined d Tags rid) = {})"
  shows "\<exists>d'. handleRestaurantRelationships sch rid cs ts ns gs d = Inr d'
           \<and> restaurants d' = restaurants d
           \<and> map l_name (joined d' Cuisines rid) = map l_name (joined d Cuisines rid) @ map trim cs
           \<and> map l_name (joined d' Types rid) = map l_name (joined d Types rid) @ map trim ts
           \<and> map l_name (joined d' Neighborhoods rid)
               = map l_name (joined d Neighborhoods rid) @ map trim ns
           \<and> map l_name (joined d' Tags rid) = map l_name (joined d Tags rid) @ map trim gs
           \<and> (\<forall>x \<in> set (lookup_tab d' Tags). x \<in> set (lookup_tab d Tags) \<or>
                 l_color x = tag_color_default sch)"
proof -
  from pre have dc: "pair_unique sch \<longrightarrow>
      distinct (map trim cs) \<and> set (map trim cs) \<inter> l_name ` set (joined d Cuisines rid) = {}"
    and dt: "pair_unique sch \<longrightarrow>
      distinct (map trim ts) \<and> set (map trim ts) \<inter> l_name ` set (joined d Types rid) = {}"
    and dn: "pair_unique sch \<longrightarrow>
      distinct (map trim ns) \<and> set (map trim ns) \<inter> l_name ` set (joined d Neighborhoods rid) = {}"
    and dg: "pair_unique sch \<longrightarrow>
      distinct (map trim gs) \<and> set (map trim gs) \<inter> l_name ` set (joined d Tags rid) = {}"
    by simp_all
  from link_names_ok [OF ok dc]
  obtain d1 where h1: "link_names sch Cuisines rid cs d = Inr d1
      \<and> restaurants d1 = restaurants d
      \<and> (\<forall>c. c \<noteq> Cuisines \<longrightarrow> lookup_tab d1 c = lookup_tab d c \<and> join_tab d1 c = join_tab d c)
      \<and> table_ok d1 Cuisines
      \<and> map l_name (joined d1 Cuisines rid) = map l_name (joined d Cuisines rid) @ map trim cs
      \<and> (\<forall>r. r \<noteq> rid \<longrightarrow> joined d1 Cuisines r = joined d Cuisines r)
      \<and> (\<forall>x \<in> set (lookup_tab d1 Cuisines). x \<in> set (lookup_tab d Cuisines) \<or>
            l_color x = (if Cuisines = Tags then tag_color_default sch else None))
      \<and> (\<forall>p \<in> set (join_tab d1 Cuisines). p \<in> set (join_tab d Cuisines) \<or> fst p = rid)" ..
  have t1: "lookup_tab d1 Types = lookup_tab d Types" "join_tab d1 Types = join_tab d Types"
    "lookup_tab d1 Neighborhoods = lookup_tab d Neighborhoods"
    "join_tab d1 Neighborhoods = join_tab d Neighborhoods"
    "lookup_tab d1 Tags = lookup_tab d Tags" "join_tab d1 Tags = join_tab d Tags"
    using h1 by simp_all
  have ok1: "table_ok d1 Types"
    using ok [of Types] by (simp add: table_ok_cong [OF t1(1,2)])
  have n1: "pair_unique sch \<longrightarrow>
      distinct (map trim ts) \<and> set (map trim ts) \<inter> l_name ` set (joined d1 Types rid) = {}"
    using dt by (simp add: joined_cong [OF t1(1,2)])
  from link_names_ok [OF ok1 n1]
  obtain d2 where h2: "link_names sch Types rid ts d1 = Inr d2
      \<and> restaurants d2 = restaurants d1
      \<and> (\<forall>c. c \<noteq> Types \<longrightarrow> lookup_tab d2 c = lookup_tab d1 c \<and> join_tab d2 c = join_tab d1 c)
      \<and> table_ok d2 Types
      \<and> map l_name (joined d2 Types rid) = map l_name (joined d1 Types rid) @ map trim ts
      \<and> (\<forall>r. r \<noteq> rid \<longrightarrow> joined d2 Types r = joined d1 Types r)
      \<and> (\<forall>x \<in> set (lookup_tab d2 Types). x \<in> set (lookup_tab d1 Types) \<or>
            l_color x = (if Types = Tags then tag_color_default sch else None))
      \<and> (\<forall>p \<in> set (join_tab d2 Types). p \<in> set (join_tab d1 Types) \<or> fst p = rid)" ..
  have t2: "lookup_tab d2 Cuisines = lookup_tab d1 Cuisines"
    "join_tab d2 Cuisines = join_tab d1 Cuisines"
    "lookup_tab d2 Neighborhoods = lookup_tab d Neighborhoods"
    "join_tab d2 Neighborhoods = join_tab d Neighborhoods"
    "lookup_tab d2 Tags = lookup_tab d Tags" "join_tab d2 Tags = join_tab d Tags"
    using h2 t1 by simp_all
  have ok2: "table_ok d2 Neighborhoods"
    using ok [of Neighborhoods] by (simp add: table_ok_cong [OF t2(3,4)])
  have n2: "pair_unique sch \<longrightarrow> distinct (map trim ns) \<and>
      set (map trim ns) \<inter> l_name ` set (joined d2 Neighborhoods rid) = {}"
    using dn by (simp add: joined_cong [OF t2(3,4)])
  from link_names_ok [OF ok2 n2]
  obtain d3 where h3: "link_names sch Neighborhoods rid ns d2 = Inr d3
      \<and> restaurants d3 = restaurants d2
      \<and> (\<forall>c. c \<noteq> Neighborhoods \<longrightarrow>
            lookup_tab d3 c = lookup_tab d2 c \<and> join_tab d3 c = join_tab d2 c)
      \<and> table_ok d3 Neighborhoods
      \<and> map l_name (joined d3 Neighborhoods rid)
          = map l_name (joined d2 Neighborhoods rid) @ map trim ns
      \<and> (\<forall>r. r \<noteq> rid \<longrightarrow> joined d3 Neighborhoods r = joined d2 Neighborhoods r)
      \<and> (\<forall>x \<in> set (lookup_tab d3 Neighborhoods). x \<in> set (lookup_tab d2 Neighborhoods) \<or>
            l_color x = (if Neighborhoods = Tags then tag_color_default sch else None))
      \<and> (\<forall>p \<in> set (join_tab d3 Neighborhoods).
            p \<in> set (join_tab d2 Neighborhoods) \<or> fst p = rid)" ..
  have t3: "lookup_tab d3 Cuisines = lookup_tab d1 Cuisines"
    "join_tab d3 Cuisines = join_tab d1 Cuisines"
    "lookup_tab d3 Types = lookup_tab d2 Types" "join_tab d3 Types = join_tab d2 Types"
    "lookup_tab d3 Tags = lookup_tab d Tags" "join_tab d3 Tags = join_tab d Tags"
    using h3 t2 by simp_all
  have ok3: "table_ok d3 Tags"
    using ok [of Tags] by (simp add: table_ok_cong [OF t3(5,6)])
  have n3: "pair_unique sch \<longrightarrow>
      distinct (map trim gs) \<and> set (map trim gs) \<inter> l_name ` set (joined d3 Tags rid) = {}"
    using dg by (simp add: joined_cong [OF t3(5,6)])
  from link_names_ok [OF ok3 n3]
  obtain d4 where h4: "link_names sch Tags rid gs d3 = Inr d4
      \<and> restaurants d4 = restaurants d3
      \<and> (\<forall>c. c \<noteq> Tags \<longrightarrow> lookup_tab d4 c = lookup_tab d3 c \<and> join_tab d4 c = join_tab d3 c)
      \<and> table_ok d4 Tags
      \<and> map l_name (joined d4 Tags rid) = map l_name (joined d3 Tags rid) @ map trim gs
      \<and> (\<forall>r. r \<noteq> rid \<longrightarrow> joined d4 Tags r = joined d3 Tags r)
      \<and> (\<forall>x \<in> set (lookup_tab d4 Tags). x \<in> set (lookup_tab d3 Tags) \<or>
            l_color x = (if Tags = Tags then tag_color_default sch else None))
      \<and> (\<forall>p \<in> set (join_tab d4 Tags). p \<in> set (join_tab d3 Tags) \<or> fst p = rid)" ..
  have t4: "lookup_tab d4 Cuisines = lookup_tab d1 Cuisines"
    "join_tab d4 Cuisines = join_tab d1 Cuisines"
    "lookup_tab d4 Types = lookup_tab d2 Types" "join_tab d4 Types = join_tab d2 Types"
    "lookup_tab d4 Neighborhoods = lookup_tab d3 Neighborhoods"
    "join_tab d4 Neighborhoods = join_tab d3 Neighborhoods"
    using h4 t3 by simp_all
  show ?thesis
  proof (intro exI conjI)
    show "handleRestaurantRelationships sch rid cs ts ns gs d = Inr d4"
      using h1 h2 h3 h4 by (simp add: handleRestaurantRelationships_def and_then_def)
    show "restaurants d4 = restaurants d"
      using h1 h2 h3 h4 by simp
    show "map l_name (joined d4 Cuisines rid) = map l_name (joined d Cuisines rid) @ map trim cs"
      using h1 by (simp add: joined_cong [OF t4(1,2)])
    show "map l_name (joined d4 Types rid) = map l_name (joined d Types rid) @ map trim ts"
      using h2 by (simp add: joined_cong [OF t4(3,4)] joined_cong [OF t1(1,2)])
    show "map l_name (joined d4 Neighborhoods rid)
        = map l_name (joined d Neighborhoods rid) @ map trim ns"
      using h3 by (simp add: joined_cong [OF t4(5,6)] joined_cong [OF t2(3,4)])
    show "map l_name (joined d4 Tags rid) = map l_name (joined d Tags rid) @ map trim gs"
      using h4 by (simp add: joined_cong [OF t3(5,6)])
    show "\<forall>x \<in> set (lookup_tab d4 Tags). x \<in> set (lookup_tab d Tags) \<or>
                 l_color x = tag_color_default sch"
      using h4 t3(5) by simp
  qed
qed

lemma all_categories_complete: "cat \<in> set all_categories"
  by (cases cat) (simp_all add: all_categories_def)

lemma keys_ok_table: "keys_ok d \<Longrightarrow> table_ok d cat"
  using all_categories_complete [of cat] by (auto simp: keys_ok_def list_all_iff)

lemma keys_okI:
  "distinct (map r_id (restaurants d)) \<Longrightarrow> (\<And>cat. table_ok d cat) \<Longrightarrow> keys_ok d"
  by (simp add: keys_ok_def list_all_iff)

lemma trim_Nil [simp]: "trim [] = []"
  by (simp add: trim_def)

lemma post_creates:
  assumes keys: "keys_ok d"
    and name: "b_name b = Some nm" "trim nm \<noteq> []"
    and lists: "pair_unique sch \<longrightarrow>
        (\<forall>cat. distinct (map trim (body_list cat b)) \<and>
           set (map trim (body_list cat b)) \<inter>
             l_name ` set (joined d cat (next_rowid (map r_id (restaurants d)))) = {})"
  shows "\<exists>d'. post_restaurant sch d b =
            ((200, Id_message (next_rowid (map r_id (restaurants d)))
                     ''Restaurant created successfully''), d')
          \<and> get_restaurant d' (next_rowid (map r_id (restaurants d))) =
              (200, Restaurant_object
                      (shape d' (new_row (next_rowid (map r_id (restaurants d))) nm b)))
          \<and> (\<forall>cat. map l_name (joined d' cat (next_rowid (map r_id (restaurants d))))
                   = map l_name (joined d cat (next_rowid (map r_id (restaurants d))))
                     @ map trim (body_list cat b))
          \<and> (\<forall>x \<in> set (lookup_tab d' Tags). x \<in> set (lookup_tab d Tags) \<or>
                 l_color x = tag_color_default sch)"
proof -
  let ?N = "next_rowid (map r_id (restaurants d))"
  let ?d1 = "d\<lparr>restaurants := restaurants d @ [new_row ?N nm b]\<rparr>"
  have fresh: "?N \<notin> r_id ` set (restaurants d)"
    using next_rowid_notin [of "map r_id (restaurants d)"] by simp
  have ok: "table_ok ?d1 cat" for cat
    using keys_ok_table [OF keys, of cat] by (simp add: table_ok_def)
  have same: "joined ?d1 cat r = joined d cat r" for cat r
    by (simp add: joined_def)
  have pre: "pair_unique sch \<longrightarrow>
        (distinct (map trim (body_list Cuisines b)) \<and>
           set (map trim (body_list Cuisines b)) \<inter> l_name ` set (joined ?d1 Cuisines ?N) = {})
      \<and> (distinct (map trim (body_list Types b)) \<and>
           set (map trim (body_list Types b)) \<inter> l_name ` set (joined ?d1 Types ?N) = {})
      \<and> (distinct (map trim (body_list Neighborhoods b)) \<and>
           set (map trim (body_list Neighborhoods b)) \<inter>
             l_name ` set (joined ?d1 Neighborhoods ?N) = {})
      \<and> (distinct (map trim (body_list Tags b)) \<and>
           set (map trim (body_list Tags b)) \<inter> l_name ` set (joined ?d1 Tags ?N) = {})"
    using lists unfolding same by blast
  from relationships_ok [of ?d1 sch _ ?N, OF ok pre]
  obtain d' where h: "handleRestaurantRelationships sch ?N
        (body_list Cuisines b) (body_list Types b) (body_list Neighborhoods b)
        (body_list Tags b) ?d1 = Inr d'
      \<and> restaurants d' = restaurants ?d1
      \<and> map l_name (joined d' Cuisines ?N)
          = map l_name (joined ?d1 Cuisines ?N) @ map trim (body_list Cuisines b)
      \<and> map l_name (joined d' Types ?N)
          = map l_name (joined ?d1 Types ?N) @ map trim (body_list Types b)
      \<and> map l_name (joined d' Neighborhoods ?N)
          = map l_name (joined ?d1 Neighborhoods ?N) @ map trim (body_list Neighborhoods b)
      \<and> map l_name (joined d' Tags ?N)
          = map l_name (joined ?d1 Tags ?N) @ map trim (body_list Tags b)
      \<and> (\<forall>x \<in> set (lookup_tab d' Tags). x \<in> set (lookup_tab ?d1 Tags) \<or>
            l_color x = tag_color_default sch)" ..
  have nonempty: "nm \<noteq> []" using name(2) by auto
  show ?thesis
  proof (intro exI conjI)
    show "post_restaurant sch d b = ((200, Id_message ?N ''Restaurant created successfully''), d')"
      using h name nonempty by (simp add: post_restaurant_def Let_def body_list_def)
    have "filter (\<lambda>r. r_id r = ?N) (restaurants d) = []"
      using fresh by (force simp: filter_empty_conv)
    then show "get_restaurant d' ?N = (200, Restaurant_object (shape d' (new_row ?N nm b)))"
      using h by (simp add: get_restaurant_def new_row_def)
    show "\<forall>cat. map l_name (joined d' cat ?N)
        = map l_name (joined d cat ?N) @ map trim (body_list cat b)"
    proof
      fix cat show "map l_name (joined d' cat ?N)
          = map l_name (joined d cat ?N) @ map trim (body_list cat b)"
        using h unfolding same by (cases cat) simp_all
    qed
    show "\<forall>x \<in> set (lookup_tab d' Tags). x \<in> set (lookup_tab d Tags) \<or>
                 l_color x = tag_color_default sch"
      using h by simp
  qed
qed

subsection \<open>The handlers keep the keys\<close>

text \<open>
  POST, PUT and DELETE keep \<open>keys_ok\<close>, and the empty database satisfies it: every
  database that these handlers reach from the empty one has unique ids, unique lookup
  names and join rows that point to lookup rows.
\<close>

lemma insert_or_ignore_keeps:
  "table_ok d c \<Longrightarrow> table_ok (insert_or_ignore sch cat nm d) c"
proof (cases "c = cat")
  case True
  assume "table_ok d c"
  with True show ?thesis by (simp add: insert_or_ignore_ok)
next
  case False
  assume "table_ok d c"
  with False show ?thesis
    by (simp add: table_ok_def insert_or_ignore_frame)
qed

lemma insert_link_keeps:
  assumes "insert_link sch cat rid nm d = Inr d'"
  shows "restaurants d' = restaurants d" and "table_ok d c \<Longrightarrow> table_ok d' c"
proof -
  from assms have d': "d' = d\<lparr>join_tab := (join_tab d)(cat := join_tab d cat @
      map (\<lambda>l. (rid, l_id l)) (filter (\<lambda>l. l_name l = nm) (lookup_tab d cat)))\<rparr>"
    by (simp add: insert_link_def Let_def split: if_splits)
  show "restaurants d' = restaurants d" by (simp add: d')
  show "table_ok d c \<Longrightarrow> table_ok d' c"
    by (auto simp: d' table_ok_def)
qed

lemma link_names_keeps:
  "link_names sch cat rid ns d = Inr d' \<Longrightarrow>
     restaurants d' = restaurants d \<and> ((\<forall>c. table_ok d c) \<longrightarrow> (\<forall>c. table_ok d' c))"
proof (induction ns arbitrary: d)
  case Nil
  then show ?case by simp
next
  case (Cons n ns)
  let ?d1 = "insert_or_ignore sch cat (trim n) d"
  from Cons.prems obtain d2 where
    step: "insert_link sch cat rid (trim n) ?d1 = Inr d2"
    and rest: "link_names sch cat rid ns d2 = Inr d'"
    by (auto split: sum.splits)
  have r2: "restaurants d2 = restaurants d"
    using insert_link_keeps(1) [OF step] by (simp add: insert_or_ignore_frame)
  have t2: "table_ok d2 c" if "\<forall>c. table_ok d c" for c
    using insert_link_keeps(2) [OF step, of c] insert_or_ignore_keeps [of d c sch cat "trim n"] that
    by simp
  from Cons.IH [OF rest] r2 t2 show ?case by simp
qed

lemma relationships_keep:
  assumes "handleRestaurantRelationships sch rid cs ts ns gs d = Inr d'"
  shows "restaurants d' = restaurants d \<and> ((\<forall>c. table_ok d c) \<longrightarrow> (\<forall>c. table_ok d' c))"
proof -
  from assms obtain d1 d2 d3 where
    "link_names sch Cuisines rid cs d = Inr d1" "link_names sch Types rid ts d1 = Inr d2"
    "link_names sch Neighborhoods rid ns d2 = Inr d3" "link_names sch Tags rid gs d3 = Inr d'"
    by (auto simp: handleRestaurantRelationships_def and_then_def split: sum.splits)
  from this [THEN link_names_keeps] show ?thesis by simp
qed

lemma delete_links_keeps:
  "restaurants (delete_links cat rid d) = restaurants d"
  "table_ok d c \<Longrightarrow> table_ok (delete_links cat rid d) c"
  by (auto simp: delete_links_def table_ok_def)

lemma update_category_keeps:
  assumes "update_category sch cat rid ns d = Inr d'"
  shows "restaurants d' = restaurants d \<and> ((\<forall>c. table_ok d c) \<longrightarrow> (\<forall>c. table_ok d' c))"
proof (cases "ns = []")
  case True
  with assms have "d' = delete_links cat rid d" by (simp add: update_category_def)
  then show ?thesis by (simp add: delete_links_keeps)
next
  case False
  with assms have "link_names sch cat rid ns (delete_links cat rid d) = Inr d'"
    by (simp add: update_category_def)
  from link_names_keeps [OF this] show ?thesis by (simp add: delete_links_keeps)
qed

lemma updates_keep:
  assumes "updateCuisinesTypesNeighborhoodsAndTags sch rid cs ts ns gs d = Inr d'"
  shows "restaurants d' = restaurants d \<and> ((\<forall>c. table_ok d c) \<longrightarrow> (\<forall>c. table_ok d' c))"
proof -
  from assms obtain d1 d2 d3 where
    "update_category sch Cuisines rid cs d = Inr d1" "update_category sch Types rid ts d1 = Inr d2"
    "update_category sch Neighborhoods rid ns d2 = Inr d3"
    "update_category sch Tags rid gs d3 = Inr d'"
    by (auto simp: updateCuisinesTypesNeighborhoodsAndTags_def and_then_def split: sum.splits)
  from this [THEN update_category_keeps] show ?thesis by simp
qed

lemma updates_keep_id: "u \<in> set (updates b) \<Longrightarrow> r_id (u r) = r_id r"
  by (auto simp: updates_def field_update_def split: option.splits)

lemma fold_updates_id:
  "\<forall>u \<in> set us. \<forall>r. r_id (u r) = r_id r \<Longrightarrow> r_id (fold (\<lambda>u. u) us r) = r_id r"
  by (induction us arbitrary: r) simp_all

lemma update_rows_ids:
  "map r_id (update_rows (updates b) rid rs) = map r_id rs"
  using fold_updates_id [of "updates b"] updates_keep_id
  by (simp add: update_rows_def)

lemma post_keeps_keys: "keys_ok d \<Longrightarrow> keys_ok (snd (post_restaurant sch d b))"
proof -
  assume k: "keys_ok d"
  let ?N = "next_rowid (map r_id (restaurants d))"
  show ?thesis
  proof (cases "\<exists>nm d2. b_name b = Some nm \<and> nm \<noteq> [] \<and> trim nm \<noteq> [] \<and>
      handleRestaurantRelationships sch ?N
        (or_default [] (b_cuisines b)) (or_default [] (b_types b))
        (or_default [] (b_neighborhoods b)) (or_default [] (b_tags b))
        (d\<lparr>restaurants := restaurants d @ [new_row ?N nm b]\<rparr>) = Inr d2")
    case False
    then have "snd (post_restaurant sch d b) = d"
      by (auto simp: post_restaurant_def Let_def split: option.splits sum.splits)
    with k show ?thesis by simp
  next
    case True
    then obtain nm d2 where nm: "b_name b = Some nm" "nm \<noteq> []" "trim nm \<noteq> []"
      and h: "handleRestaurantRelationships sch ?N
        (or_default [] (b_cuisines b)) (or_default [] (b_types b))
        (or_default [] (b_neighborhoods b)) (or_default [] (b_tags b))
        (d\<lparr>restaurants := restaurants d @ [new_row ?N nm b]\<rparr>) = Inr d2" by blast
    let ?d1 = "d\<lparr>restaurants := restaurants d @ [new_row ?N nm b]\<rparr>"
    have res: "snd (post_restaurant sch d b) = d2"
      using nm h by (simp add: post_restaurant_def Let_def)
    have t1: "\<forall>c. table_ok ?d1 c"
      using keys_ok_table [OF k] by (simp add: table_ok_def)
    have "?N \<notin> set (map r_id (restaurants d))" by (rule next_rowid_notin)
    then have d1: "distinct (map r_id (restaurants ?d1))"
      using k by (simp add: keys_ok_def new_row_def)
    from relationships_keep [OF h] t1 d1 have "keys_ok d2"
      by (intro keys_okI) simp_all
    with res show ?thesis by simp
  qed
qed

lemma put_keeps_keys: "keys_ok d \<Longrightarrow> keys_ok (snd (put_restaurant sch d rid b))"
proof -
  assume k: "keys_ok d"
  let ?d1 = "d\<lparr>restaurants := update_rows (updates b) rid (restaurants d)\<rparr>"
  have k1: "distinct (map r_id (restaurants ?d1))" "\<forall>c. table_ok ?d1 c"
    using k keys_ok_table [OF k] by (simp_all add: update_rows_ids keys_ok_def table_ok_def)
  have cont: "keys_ok d2"
    if "updateCuisinesTypesNeighborhoodsAndTags sch rid cs ts ns gs d0 = Inr d2"
      and "distinct (map r_id (restaurants d0))" "\<forall>c. table_ok d0 c" for cs ts ns gs d0 d2
    using updates_keep [OF that(1)] that(2,3) by (intro keys_okI) simp_all
  have k0: "distinct (map r_id (restaurants d))" "\<forall>c. table_ok d c"
    using k keys_ok_table [OF k] by (simp_all add: keys_ok_def)
  show ?thesis
    using k cont [OF _ k1] cont [OF _ k0]
    by (auto simp: put_restaurant_def Let_def split: sum.splits)
qed

lemma delete_keeps_keys: "keys_ok d \<Longrightarrow> keys_ok (snd (delete_restaurant d rid))"
proof -
  assume k: "keys_ok d"
  let ?d3 = "delete_links Tags rid (delete_links Types rid (delete_links Cuisines rid d))"
  have "table_ok ?d3 c" for c
    using keys_ok_table [OF k, of c] by (simp add: delete_links_keeps)
  moreover have "restaurants ?d3 = restaurants d" by (simp add: delete_links_keeps)
  ultimately have "keys_ok (?d3\<lparr>restaurants := filter (\<lambda>r. r_id r \<noteq> rid) (restaurants ?d3)\<rparr>)"
    using k by (intro keys_okI) (simp_all add: keys_ok_def table_ok_def distinct_map_filter)
  with k show ?thesis
    by (simp add: delete_restaurant_def Let_def)
qed

lemma keys_ok_empty: "keys_ok empty_db"
  by (simp add: keys_ok_def empty_db_def all_categories_def table_ok_def)

subsection \<open>Output shaping\<close>


lemma split_on_no_sep: "e \<in> set (split_on d s) \<Longrightarrow> d \<notin> set e"
  by (induction s arbitrary: e) (auto split: list.splits if_splits)







lemma set_distinct_first [simp]: "set (distinct_first xs) = set xs"
  by (simp add: distinct_first_def)

lemma non_null_Some [simp]: "non_null (map Some xs) = xs"
  by (induction xs) (simp_all add: non_null_def)


lemma non_null_mem: "Some e \<in> set vs \<Longrightarrow> e \<in> set (non_null vs)"
  by (force simp: non_null_def)








lemma agg_names_eval:
  "agg_names d cat rid = group_concat (map Some (map l_name (joined d cat rid)))"
  by (simp add: agg_names_def comp_def)

text \<open>
  When no row of restaurant_cuisines carries the id that the insert assigns, the request
  \<^verbatim>\<open>{name: "Joe's", cuisines: ["Diner"]}\<close> is created and fetched with the cuisines
  \<^verbatim>\<open>["Diner"]\<close>, liked false and the status "Unvisited".
\<close>

lemma post_joes_on_unused_id:
  assumes keys: "keys_ok d"
    and none: "next_rowid (map r_id (restaurants d)) \<notin> fst ` set (join_tab d Cuisines)"
  shows "\<exists>N d' ob.
      post_restaurant sch d (empty_body\<lparr>b_name := Some ''Joe's'', b_cuisines := Some [''Diner'']\<rparr>)
        = ((200, Id_message N ''Restaurant created successfully''), d')
    \<and> get_restaurant d' N = (200, Restaurant_object ob)
    \<and> r_id (o_row ob) = N
    \<and> o_cuisines ob = [''Diner'']
    \<and> o_liked ob = False
    \<and> r_status (o_row ob) = Some ''Unvisited''"
proof -
  let ?b = "empty_body\<lparr>b_name := Some ''Joe's'', b_cuisines := Some [''Diner'']\<rparr>"
  let ?N = "next_rowid (map r_id (restaurants d))"
  have name: "b_name ?b = Some ''Joe's''" "trim ''Joe's'' \<noteq> []"
    by (simp_all add: trim_def is_space_def)
  have empty: "joined d Cuisines ?N = []" using none by (rule joined_no_rows)
  have lists: "pair_unique sch \<longrightarrow>
        (\<forall>cat. distinct (map trim (body_list cat ?b)) \<and>
           set (map trim (body_list cat ?b)) \<inter> l_name ` set (joined d cat ?N) = {})"
  proof (intro impI allI)
    fix cat show "distinct (map trim (body_list cat ?b)) \<and>
           set (map trim (body_list cat ?b)) \<inter> l_name ` set (joined d cat ?N) = {}"
      using empty by (cases cat) (simp_all add: body_list_def empty_body_def or_default_def)
  qed
  from post_creates [OF keys name lists]
  obtain d' where h: "post_restaurant sch d ?b =
            ((200, Id_message ?N ''Restaurant created successfully''), d')
          \<and> get_restaurant d' ?N = (200, Restaurant_object (shape d' (new_row ?N ''Joe's'' ?b)))
          \<and> (\<forall>cat. map l_name (joined d' cat ?N)
                = map l_name (joined d cat ?N) @ map trim (body_list cat ?b))
          \<and> (\<forall>x \<in> set (lookup_tab d' Tags). x \<in> set (lookup_tab d Tags) \<or>
                 l_color x = tag_color_default sch)" ..
  let ?ob = "shape d' (new_row ?N ''Joe's'' ?b)"
  have "map l_name (joined d' Cuisines ?N)
      = map l_name (joined d Cuisines ?N) @ map trim (body_list Cuisines ?b)"
    using h by blast
  then have "map l_name (joined d' Cuisines ?N) = [''Diner'']"
    by (simp add: empty body_list_def or_default_def trim_def is_space_def)
  then have "agg_names d' Cuisines ?N = Some ''Diner''"
    by (simp add: agg_names_eval group_concat_def distinct_first_def non_null_def)
  then have cuisines: "o_cuisines ?ob = [''Diner'']"
    by (simp add: shape_def new_row_def split_list_def)
  show ?thesis
  proof (intro exI conjI)
    show "post_restaurant sch d ?b =
        ((200, Id_message ?N ''Restaurant created successfully''), d')" using h by simp
    show "get_restaurant d' ?N = (200, Restaurant_object ?ob)" using h by simp
    show "r_id (o_row ?ob) = ?N" by (simp add: shape_def new_row_def)
    show "o_cuisines ?ob = [''Diner'']" by (rule cuisines)
    show "o_liked ?ob = False"
      by (simp add: shape_def new_row_def empty_body_def or_default_def bit_of_def)
    show "r_status (o_row ?ob) = Some ''Unvisited''"
      by (simp add: shape_def new_row_def empty_body_def or_default_def)
  qed
qed




subsection \<open>Three-valued logic and the HAVING clause\<close>

lemma sql_or_True: "sql_or a b = Some True \<longleftrightarrow> a = Some True \<or> b = Some True"
  by (induction a b rule: sql_or.induct) auto

lemma sql_and_True: "sql_and a b = Some True \<longleftrightarrow> a = Some True \<and> b = Some True"
  by (induction a b rule: sql_and.induct) auto

lemma group_value_True:
  "group_value d r g = Some True \<longleftrightarrow>
     (\<exists>x \<in> set g. sql_like (operand_value d r (fst x)) (snd x) = Some True)"
  by (induction g) (auto simp: group_value_def sql_or_True split: prod.splits)

lemma tail_value_ands:
  "tail_value d r acc (map And_group gs) = Some True \<longleftrightarrow>
     acc = Some True \<and> (\<forall>g \<in> set gs. group_value d r g = Some True)"
  by (induction gs arbitrary: acc) (auto simp: sql_and_True)

lemma tail_value_ands_or:
  "tail_value d r acc (map And_group gs @ [Or_group s]) = Some True \<longleftrightarrow>
     (acc = Some True \<and> (\<forall>g \<in> set gs. group_value d r g = Some True))
     \<or> group_value d r s = Some True"
  by (induction gs arbitrary: acc) (auto simp: sql_and_True sql_or_True)

lemma group_value_category:
  "group_value d r (category_group cat p) = Some True \<longleftrightarrow>
     list_ex (spec_value_matches d r cat) (csv_list p)"
  by (auto simp: group_value_True category_group_def spec_value_matches_def list_ex_iff)

lemma category_clauses_shape:
  assumes "spec_well_formed q"
  shows "category_clauses q =
     (case filter (\<lambda>cat. spec_active cat q) [Cuisines, Neighborhoods, Types, Tags] of
        [] \<Rightarrow> []
      | c # cs \<Rightarrow> Having (category_group c (or_default [] (param_of c q)))
                 # map And_group (map (\<lambda>c. category_group c (or_default [] (param_of c q))) cs))"
  using assms
  by (simp add: category_clauses_def filter_clause_def spec_well_formed_def all_categories_def
      spec_active_def spec_values_def param_of_def Let_def)

lemma active_filter_set:
  "set (filter (\<lambda>cat. spec_active cat q) [Cuisines, Neighborhoods, Types, Tags])
     = {cat. spec_active cat q}"
proof -
  have "set [Cuisines, Neighborhoods, Types, Tags] = UNIV"
    using all_categories_complete by (auto simp: all_categories_def)
  then show ?thesis by (simp only: set_filter) auto
qed

lemma spec_categories_ok_iff:
  "spec_categories_ok d r q \<longleftrightarrow>
     (\<forall>cat. spec_active cat q \<longrightarrow>
        group_value d r (category_group cat (or_default [] (param_of cat q))) = Some True)"
  using all_categories_complete
  by (auto simp: spec_categories_ok_def spec_category_ok_def list_all_iff
      group_value_category spec_values_def)

lemma having_ok_categories:
  assumes wf: "spec_well_formed q"
  shows "having_ok d r (category_clauses q) \<longleftrightarrow> spec_categories_ok d r q"
proof (cases "filter (\<lambda>cat. spec_active cat q) [Cuisines, Neighborhoods, Types, Tags]")
  case Nil
  then have "{cat. spec_active cat q} = {}"
    using active_filter_set [of q] by simp
  then show ?thesis
    using Nil by (simp add: category_clauses_shape [OF wf] spec_categories_ok_iff)
next
  case (Cons c cs)
  let ?grp = "\<lambda>c. category_group c (or_default [] (param_of c q))"
  have "{cat. spec_active cat q} = set (c # cs)"
    using active_filter_set [of q] by (simp only: Cons)
  then have act: "spec_active cat q \<longleftrightarrow> cat \<in> set (c # cs)" for cat by blast
  have cl: "category_clauses q = Having (?grp c) # map And_group (map ?grp cs)"
    by (simp only: category_clauses_shape [OF wf] Cons list.case)
  have "having_ok d r (category_clauses q) \<longleftrightarrow>
      group_value d r (?grp c) = Some True \<and>
      (\<forall>g \<in> set (map ?grp cs). group_value d r g = Some True)"
    by (simp only: cl having_ok.simps tail_value_ands)
  also have "\<dots> \<longleftrightarrow> (\<forall>cat \<in> set (c # cs). group_value d r (?grp cat) = Some True)"
    by simp
  also have "\<dots> \<longleftrightarrow> spec_categories_ok d r q"
    by (simp only: spec_categories_ok_iff act) blast
  finally show ?thesis .
qed

lemma prepare_error_categories:
  assumes wf: "spec_well_formed q"
  shows "prepare_error (category_clauses q @ cs) =
           (if category_clauses q = [] then prepare_error cs else None)"
  by (simp add: category_clauses_shape [OF wf] split: list.splits)

lemma has_having_categories:
  assumes wf: "spec_well_formed q"
  shows "list_ex is_having (category_clauses q) \<longleftrightarrow> category_clauses q \<noteq> []"
  by (simp add: category_clauses_shape [OF wf] split: list.splits)

lemma category_clauses_empty:
  assumes wf: "spec_well_formed q"
  shows "category_clauses q = [] \<longleftrightarrow> \<not> list_ex (\<lambda>cat. spec_active cat q) all_categories"
proof -
  have "category_clauses q = [] \<longleftrightarrow>
      filter (\<lambda>cat. spec_active cat q) [Cuisines, Neighborhoods, Types, Tags] = []"
    by (simp add: category_clauses_shape [OF wf] split: list.splits)
  also have "\<dots> \<longleftrightarrow> {cat. spec_active cat q} = {}"
    using active_filter_set [of q] by (metis set_empty)
  also have "\<dots> \<longleftrightarrow> \<not> list_ex (\<lambda>cat. spec_active cat q) all_categories"
    using all_categories_complete by (auto simp: list_ex_iff)
  finally show ?thesis .
qed

lemma having_ok_search:
  assumes wf: "spec_well_formed q" and s: "truthy (q_search q)"
  shows "having_ok d r (having_clauses q) \<longleftrightarrow>
     (list_ex (\<lambda>cat. spec_active cat q) all_categories \<and> spec_categories_ok d r q)
     \<or> group_value d r (search_group (or_default [] (q_search q))) = Some True"
proof (cases "category_clauses q = []")
  case True
  then show ?thesis
    using s category_clauses_empty [OF wf]
    by (simp add: having_clauses_def Let_def)
next
  case False
  let ?grp = "\<lambda>c. category_group c (or_default [] (param_of c q))"
  let ?s = "search_group (or_default [] (q_search q))"
  from False obtain c cs where act:
    "filter (\<lambda>cat. spec_active cat q) [Cuisines, Neighborhoods, Types, Tags] = c # cs"
    by (auto simp: category_clauses_shape [OF wf] split: list.splits)
  have cl: "category_clauses q = Having (?grp c) # map And_group (map ?grp cs)"
    by (simp only: category_clauses_shape [OF wf] act list.case)
  have hv: "list_ex is_having (category_clauses q)"
    using False has_having_categories [OF wf] by simp
  have some: "list_ex (\<lambda>cat. spec_active cat q) all_categories"
    using False category_clauses_empty [OF wf] by simp
  have all: "having_clauses q = category_clauses q @ [Or_group ?s]"
    using s hv by (simp add: having_clauses_def Let_def)
  have "having_ok d r (category_clauses q) \<longleftrightarrow>
      group_value d r (?grp c) = Some True \<and>
      (\<forall>g \<in> set (map ?grp cs). group_value d r g = Some True)"
    by (simp only: cl having_ok.simps tail_value_ands)
  moreover have "having_ok d r (having_clauses q) \<longleftrightarrow>
      (group_value d r (?grp c) = Some True \<and>
       (\<forall>g \<in> set (map ?grp cs). group_value d r g = Some True))
      \<or> group_value d r ?s = Some True"
    by (simp only: all cl append_Cons having_ok.simps tail_value_ands_or)
  ultimately have "having_ok d r (having_clauses q) \<longleftrightarrow>
      having_ok d r (category_clauses q) \<or> group_value d r ?s = Some True"
    by simp
  then show ?thesis
    using some by (simp add: having_ok_categories [OF wf])
qed

lemma prepare_error_search:
  assumes wf: "spec_well_formed q"
  shows "prepare_error (having_clauses q) = None"
  using has_having_categories [OF wf]
  by (auto simp: having_clauses_def Let_def prepare_error_categories [OF wf]
      prepare_error_categories [OF wf, of "[]", simplified])

subsection \<open>LIKE and substrings\<close>

lemma like_percent_all: "like_match ''%'' u"
  by (induction u) simp_all

lemma like_match_same_ci: "map lower p = map lower s \<Longrightarrow> like_match p s"
proof (induction p arbitrary: s)
  case Nil
  then show ?case by simp
next
  case (Cons c ps)
  then obtain x xs where s: "s = x # xs" "lower c = lower x" "map lower ps = map lower xs"
    by (cases s) auto
  have tl: "like_match ps xs" using Cons.IH s(3) by simp
  show ?case
  proof (cases "c = CHR ''%''")
    case True
    have "like_match (c # ps) xs" using tl True by (cases xs) simp_all
    then show ?thesis using True s(1) by simp
  next
    case False
    then show ?thesis using s tl by simp
  qed
qed

lemma like_match_append_any: "like_match p s \<Longrightarrow> like_match (p @ ''%'') (s @ u)"
proof (induction p s rule: like_match.induct)
  case (1 s)
  then show ?case using like_percent_all by simp
next
  case (2 c ps s)
  show ?case
  proof (cases "c = CHR ''%''")
    case True
    from "2.prems" True
    consider "like_match ps s" | x t where "s = x # t" "like_match (c # ps) t"
      by (cases s) auto
    then show ?thesis
    proof cases
      case 1
      then have "like_match (ps @ ''%'') (s @ u)" using "2.IH"(1) True by simp
      then show ?thesis using True by simp
    next
      case 2
      then have "like_match ((c # ps) @ ''%'') (t @ u)" using "2.IH"(2) True by simp
      then show ?thesis using True 2(1) by simp
    qed
  next
    case False
    from "2.prems" False obtain x t where s: "s = x # t"
      "c = CHR ''_'' \<or> lower c = lower x" "like_match ps t"
      by (cases s) auto
    then have "like_match (ps @ ''%'') (t @ u)" using "2.IH"(3) False by simp
    then show ?thesis using False s by simp
  qed
qed

lemma like_match_skip: "like_match q s \<Longrightarrow> like_match (CHR ''%'' # q) (pre @ s)"
  by (induction pre) (cases s; simp)+

lemma occurs_ci_like: "occurs_ci t s \<Longrightarrow> like_match (contains_param t) s"
proof -
  assume "occurs_ci t s"
  then obtain a b where "map lower s = a @ map lower t @ b"
    by (auto simp: occurs_ci_def sublist_def)
  then obtain pre rest where ps: "s = pre @ rest" "map lower t @ b = map lower rest"
    unfolding map_eq_append_conv by blast
  then obtain mid post where mp: "rest = mid @ post" "map lower t = map lower mid"
    unfolding append_eq_map_conv by blast
  have "like_match t mid" using mp(2) by (rule like_match_same_ci)
  then have "like_match (t @ ''%'') (mid @ post)" by (rule like_match_append_any)
  then have "like_match (CHR ''%'' # t @ ''%'') (pre @ mid @ post)" by (rule like_match_skip)
  then show ?thesis using ps mp by (simp add: contains_param_def)
qed

lemma occurs_ci_embed: "occurs_ci t x \<Longrightarrow> occurs_ci t (a @ x @ b)"
proof -
  assume "occurs_ci t x"
  then obtain p q where "map lower x = p @ map lower t @ q"
    by (auto simp: occurs_ci_def sublist_def)
  then have "map lower (a @ x @ b) = (map lower a @ p) @ map lower t @ (q @ map lower b)"
    by simp
  then show ?thesis
    unfolding occurs_ci_def sublist_def by blast
qed

lemma join_with_mem: "x \<in> set xs \<Longrightarrow> \<exists>a b. join_with sep xs = a @ x @ b"
proof (induction sep xs rule: join_with.induct)
  case (1 sep)
  then show ?case by simp
next
  case (2 sep y)
  then have "join_with sep [y] = [] @ x @ []" by simp
  then show ?case by blast
next
  case (3 sep y z zs)
  show ?case
  proof (cases "x = y")
    case True
    then have "join_with sep (y # z # zs) = [] @ x @ (sep # join_with sep (z # zs))" by simp
    then show ?thesis by blast
  next
    case False
    with 3 obtain a b where "join_with sep (z # zs) = a @ x @ b" by auto
    then have "join_with sep (y # z # zs) = (y @ sep # a) @ x @ b" by simp
    then show ?thesis by blast
  qed
qed

lemma agg_names_occurs:
  assumes "l \<in> set (joined d cat rid)" "occurs_ci t (l_name l)"
  shows "sql_like (agg_names d cat rid) (contains_param t) = Some True"
proof -
  let ?ys = "distinct_first (non_null (map (\<lambda>l. Some (l_name l)) (joined d cat rid)))"
  have "Some (l_name l) \<in> set (map (\<lambda>l. Some (l_name l)) (joined d cat rid))"
    using assms(1) by auto
  then have mem: "l_name l \<in> set ?ys" by (simp add: non_null_mem)
  then obtain y ys where ys: "?ys = y # ys" by (cases ?ys) auto
  from join_with_mem [OF mem, of "CHR '',''"]
  obtain a b where "join_with CHR '','' ?ys = a @ l_name l @ b" by blast
  then have "occurs_ci t (join_with CHR '','' ?ys)"
    using occurs_ci_embed [OF assms(2)] by simp
  then have "like_match (contains_param t) (join_with CHR '','' ?ys)"
    by (rule occurs_ci_like)
  then have "like_match (contains_param t) (join_with CHR '','' (y # ys))"
    by (simp only: ys)
  moreover have "agg_names d cat rid = Some (join_with CHR '','' (y # ys))"
    by (simp add: agg_names_def group_concat_def ys)
  ultimately show ?thesis
    by (simp add: sql_like_def)
qed

lemma text_match_search:
  assumes "spec_text_match d r t"
  shows "group_value d r (search_group t) = Some True"
proof -
  from assms have "occurs_ci t (r_name r)
      \<or> (\<exists>s. r_notes r = Some s \<and> occurs_ci t s)
      \<or> (\<exists>s. r_what_to_order r = Some s \<and> occurs_ci t s)
      \<or> (\<exists>s. r_borough r = Some s \<and> occurs_ci t s)
      \<or> (\<exists>cat l. l \<in> set (joined d cat (r_id r)) \<and> occurs_ci t (l_name l))"
    by (cases "r_notes r"; cases "r_what_to_order r"; cases "r_borough r")
       (auto simp: spec_text_match_def non_null_def list_ex_iff)
  then consider "occurs_ci t (r_name r)"
    | s where "r_notes r = Some s" "occurs_ci t s"
    | s where "r_what_to_order r = Some s" "occurs_ci t s"
    | s where "r_borough r = Some s" "occurs_ci t s"
    | cat l where "l \<in> set (joined d cat (r_id r))" "occurs_ci t (l_name l)"
    by blast
  then show ?thesis
  proof cases
    case 1
    then show ?thesis
      by (auto simp: group_value_True search_group_def sql_like_def dest: occurs_ci_like)
  next
    case 2
    then show ?thesis
      by (auto simp: group_value_True search_group_def sql_like_def dest: occurs_ci_like)
  next
    case 3
    then show ?thesis
      by (auto simp: group_value_True search_group_def sql_like_def dest: occurs_ci_like)
  next
    case 4
    then show ?thesis
      by (auto simp: group_value_True search_group_def sql_like_def dest: occurs_ci_like)
  next
    case 5
    from agg_names_occurs [OF this]
    show ?thesis
      by (cases cat) (auto simp: group_value_True search_group_def)
  qed
qed

subsection \<open>LIKE with a value that holds no wildcard\<close>

lemma like_percent_unfold:
  "like_match (CHR ''%'' # p) (x # t) = (like_match p (x # t) \<or> like_match (CHR ''%'' # p) t)"
  by (subst like_match.simps(2)) simp

lemma like_percent_Nil: "like_match (CHR ''%'' # p) [] = like_match p []"
  by (subst like_match.simps(2)) simp

lemma like_percent_suffix:
  "like_match (CHR ''%'' # p) s \<Longrightarrow> \<exists>a b. s = a @ b \<and> like_match p b"
proof (induction s)
  case Nil
  then have "like_match p []" by (simp only: like_percent_Nil)
  then have "[] = [] @ [] \<and> like_match p []" by simp
  then show ?case by (intro exI)
next
  case (Cons x t)
  from Cons.prems have "like_match p (x # t) \<or> like_match (CHR ''%'' # p) t"
    by (simp only: like_percent_unfold)
  then show ?case
  proof
    assume "like_match p (x # t)"
    then have "x # t = [] @ (x # t) \<and> like_match p (x # t)" by simp
    then show ?thesis by (intro exI)
  next
    assume "like_match (CHR ''%'' # p) t"
    then have "\<exists>a b. t = a @ b \<and> like_match p b" by (rule Cons.IH)
    then obtain a b where "t = a @ b" "like_match p b" by (elim exE conjE)
    then have "x # t = (x # a) @ b \<and> like_match p b" by simp
    then show ?thesis by (intro exI)
  qed
qed

lemma like_plain_head:
  "c \<noteq> CHR ''%'' \<Longrightarrow> like_match (c # ps) b =
     (case b of [] \<Rightarrow> False | x # t \<Rightarrow> (c = CHR ''_'' \<or> lower c = lower x) \<and> like_match ps t)"
  by (subst like_match.simps(2)) simp

lemma like_plain_prefix:
  "CHR ''%'' \<notin> set v \<Longrightarrow> CHR ''_'' \<notin> set v \<Longrightarrow> like_match (v @ q) b
   \<Longrightarrow> \<exists>m e. b = m @ e \<and> map lower m = map lower v"
proof (induction v arbitrary: b)
  case Nil
  have "b = [] @ b \<and> map lower [] = map lower ([]::string)" by simp
  then show ?case by (intro exI)
next
  case (Cons c v)
  have c: "c \<noteq> CHR ''%''" "c \<noteq> CHR ''_''" and v: "CHR ''%'' \<notin> set v" "CHR ''_'' \<notin> set v"
    using Cons.prems(1,2) by auto
  have "like_match (c # (v @ q)) b" using Cons.prems(3) by simp
  then obtain x t where b: "b = x # t" "lower c = lower x" "like_match (v @ q) t"
    using c by (cases b) (simp_all only: like_plain_head [OF c(1)] list.case, simp)
  from Cons.IH [OF v b(3)]
  obtain m e where "t = m @ e" "map lower m = map lower v" by (elim exE conjE)
  then have "b = (x # m) @ e \<and> map lower (x # m) = map lower (c # v)"
    using b by simp
  then show ?case by (intro exI)
qed

lemma like_plain_occurs:
  assumes "CHR ''%'' \<notin> set v" "CHR ''_'' \<notin> set v" "like_match (contains_param v) s"
  shows "occurs_ci v s"
proof -
  have "like_match (CHR ''%'' # (v @ ''%'')) s"
    using assms(3) by (simp only: contains_param_def)
  from like_percent_suffix [OF this]
  obtain a b where ab: "s = a @ b" "like_match (v @ ''%'') b" by (elim exE conjE)
  from like_plain_prefix [OF assms(1,2) ab(2)]
  obtain m e where me: "b = m @ e" "map lower m = map lower v" by (elim exE conjE)
  have "map lower s = map lower a @ map lower v @ map lower e"
    using ab(1) me by simp
  then show ?thesis
    unfolding occurs_ci_def sublist_def by (intro exI)
qed

lemma lower_not_comma: "c \<noteq> CHR '','' \<Longrightarrow> lower c \<noteq> CHR '',''"
proof (cases "map_of (zip ''ABCDEFGHIJKLMNOPQRSTUVWXYZ'' ''abcdefghijklmnopqrstuvwxyz'') c")
  case None
  assume "c \<noteq> CHR '',''"
  then show ?thesis by (simp only: lower_def None option.case) simp
next
  case (Some l)
  then have "(c, l) \<in> set (zip ''ABCDEFGHIJKLMNOPQRSTUVWXYZ'' ''abcdefghijklmnopqrstuvwxyz'')"
    by (rule map_of_SomeD)
  then have "l \<in> set ''abcdefghijklmnopqrstuvwxyz''" by (rule set_zip_rightD)
  then have "l \<noteq> CHR '',''" by auto
  then show ?thesis by (simp only: lower_def Some option.case) simp
qed

lemma sublist_around_sep:
  assumes "sublist w (p @ c # q)" "c \<notin> set w"
  shows "sublist w p \<or> sublist w q"
proof -
  from assms(1) consider "sublist w p" | "sublist w (c # q)"
    | w1 w2 where "w = w1 @ w2" "suffix w1 p" "prefix w2 (c # q)"
    unfolding sublist_append by blast
  then show ?thesis
  proof cases
    case 1
    then show ?thesis by simp
  next
    case 2
    then have "prefix w (c # q) \<or> sublist w q" by (simp add: sublist_Cons_right)
    moreover have "prefix w (c # q) \<Longrightarrow> w = []"
      using assms(2) by (cases w) auto
    ultimately show ?thesis by auto
  next
    case 3
    have "w2 = []" using 3(1,3) assms(2) by (cases w2) auto
    then have "suffix w p" using 3 by simp
    then show ?thesis by (auto simp: suffix_imp_sublist)
  qed
qed

lemma lower_comma: "lower CHR '','' = CHR '',''"
  by code_simp

lemma occurs_in_join_gen:
  "occurs_ci v (join_with sep ys) \<Longrightarrow> lower sep \<notin> set (map lower v) \<Longrightarrow> v \<noteq> []
   \<Longrightarrow> \<exists>y \<in> set ys. occurs_ci v y"
proof (induction sep ys rule: join_with.induct)
  case (1 sep)
  then show ?case by (simp add: occurs_ci_def)
next
  case (2 sep x)
  then show ?case by simp
next
  case (3 sep x y ys)
  have "map lower (join_with sep (x # y # ys))
      = map lower x @ lower sep # map lower (join_with sep (y # ys))"
    by simp
  then have "sublist (map lower v) (map lower x @ lower sep # map lower (join_with sep (y # ys)))"
    using "3.prems"(1) by (simp only: occurs_ci_def)
  from sublist_around_sep [OF this "3.prems"(2)]
  have "occurs_ci v x \<or> occurs_ci v (join_with sep (y # ys))"
    by (simp only: occurs_ci_def)
  then show ?case
  proof
    assume "occurs_ci v x"
    then show ?thesis by simp
  next
    assume "occurs_ci v (join_with sep (y # ys))"
    from "3.IH" [OF this "3.prems"(2,3)] show ?thesis by auto
  qed
qed

lemma occurs_in_join:
  assumes "occurs_ci v (join_with CHR '','' ys)" "CHR '','' \<notin> set v" "v \<noteq> []"
  shows "\<exists>y \<in> set ys. occurs_ci v y"
proof -
  have "CHR '','' \<notin> set (map lower v)"
  proof
    assume "CHR '','' \<in> set (map lower v)"
    then obtain c where c: "c \<in> set v" "lower c = CHR '',''" by auto
    from c(1) assms(2) have "c \<noteq> CHR '',''" by blast
    from lower_not_comma [OF this] c(2) show False by blast
  qed
  then have "lower CHR '','' \<notin> set (map lower v)" by (simp add: lower_comma)
  from occurs_in_join_gen [OF assms(1) this assms(3)] show ?thesis .
qed

lemma csv_list_value:
  assumes "v \<in> set (csv_list p)"
  shows "v \<noteq> []" and "CHR '','' \<notin> set v"
proof -
  from assms obtain e where e: "e \<in> set (split_on CHR '','' p)" "v = trim e" "v \<noteq> []"
    by (auto simp: csv_list_def)
  show "v \<noteq> []" by (rule e(3))
  have "set (trim e) \<subseteq> set e"
  proof
    fix c assume "c \<in> set (trim e)"
    then have "c \<in> set (dropWhile is_space (rev (dropWhile is_space e)))"
      by (simp add: trim_def)
    then have "c \<in> set (rev (dropWhile is_space e))" by (rule set_dropWhileD)
    then have "c \<in> set (dropWhile is_space e)" by simp
    then show "c \<in> set e" by (rule set_dropWhileD)
  qed
  moreover have "CHR '','' \<notin> set e" using e(1) by (rule split_on_no_sep)
  ultimately show "CHR '','' \<notin> set v" using e(2) by blast
qed

lemma non_null_map_Some: "non_null (map (\<lambda>l. Some (f l)) xs) = map f xs"
  by (induction xs) (simp_all add: non_null_def)

lemma spec_value_matches_plain:
  assumes v: "v \<noteq> []" "CHR '','' \<notin> set v" "CHR ''%'' \<notin> set v" "CHR ''_'' \<notin> set v"
  shows "spec_value_matches d r cat v \<longleftrightarrow>
           list_ex (\<lambda>l. occurs_ci v (l_name l)) (joined d cat (r_id r))"
proof
  assume "list_ex (\<lambda>l. occurs_ci v (l_name l)) (joined d cat (r_id r))"
  then obtain l where "l \<in> set (joined d cat (r_id r))" "occurs_ci v (l_name l)"
    by (auto simp: list_ex_iff)
  then show "spec_value_matches d r cat v"
    unfolding spec_value_matches_def by (rule agg_names_occurs)
next
  assume m: "spec_value_matches d r cat v"
  let ?ys = "distinct_first (non_null (map (\<lambda>l. Some (l_name l)) (joined d cat (r_id r))))"
  from m obtain s where s: "agg_names d cat (r_id r) = Some s" "like_match (contains_param v) s"
    by (auto simp: spec_value_matches_def sql_like_def)
  from s(1) have "s = join_with CHR '','' ?ys"
    by (auto simp: agg_names_def group_concat_def split: list.splits)
  moreover have "occurs_ci v s" using v(3,4) s(2) by (rule like_plain_occurs)
  ultimately have "occurs_ci v (join_with CHR '','' ?ys)" by simp
  from occurs_in_join [OF this v(2,1)]
  obtain y where "y \<in> set ?ys" "occurs_ci v y" by blast
  then have "\<exists>l \<in> set (joined d cat (r_id r)). occurs_ci v (l_name l)"
    by (auto simp: non_null_map_Some)
  then show "list_ex (\<lambda>l. occurs_ci v (l_name l)) (joined d cat (r_id r))"
    by (simp add: list_ex_iff)
qed

subsection \<open>Listing with category filters\<close>

lemma where_ok_borough_only:
  assumes "q_boroughs q = Some bo" "bo \<noteq> []" "\<not> truthy (q_status q)" "q_liked q = None"
  shows "where_ok q r = Some True \<longleftrightarrow> r_borough r = Some bo"
  using assms
  by (cases "r_borough r")
     (auto simp: where_ok_def truthy_def or_default_def sql_eq_def sql_and_True)

lemma sql_and_True_left: "sql_and (Some True) x = x"
  by (induction "Some True" x rule: sql_and.induct) auto

lemma sql_and_True_right: "sql_and x (Some True) = x"
  by (induction x "Some True" rule: sql_and.induct) auto

lemma where_ok_dev_plain:
  "\<not> truthy (q_search q) \<Longrightarrow> \<not> truthy (q_neighborhoods q) \<Longrightarrow> where_ok_dev q r = where_ok q r"
  by (simp add: where_ok_dev_def where_ok_def sql_and_True_left sql_and_True_right)

lemma having_clauses_dev_plain:
  "\<not> truthy (q_neighborhoods q) \<Longrightarrow> \<not> truthy (q_tags q)
   \<Longrightarrow> having_clauses_dev q = category_clauses q"
  by (simp add: having_clauses_dev_def category_clauses_def Let_def)

text \<open>
  C2, as amended. A list request without a search term, in which every category
  parameter that is present names at least one non-blank value, is answered with the
  restaurants that pass the equality filters and, for every active category, match at
  least one requested value (OR inside a category, AND across cuisines, neighborhoods,
  types and tags), ordered by name and cut by limit and offset (10000 and 0 when
  absent). A value matches when the comma-joined distinct names of the category satisfy
  \<^verbatim>\<open>LIKE '%value%'\<close>; for a value without the wildcards \<^verbatim>\<open>%\<close> and \<^verbatim>\<open>_\<close> this means
  that some name of the category contains the value as a case-insensitive substring,
  which is weaker than membership. With
  \<^verbatim>\<open>boroughs=Manhattan\<close> and no status or liked filter, the equality filters say that
  the borough equals Manhattan. The development variant answers in the same way, with a
  default limit of 100, when the request has no neighborhoods and no tags parameter.
\<close>

theorem category_filters_semantics:
  assumes nosearch: "\<not> truthy (q_search q)" and wf: "spec_well_formed q"
  shows "get_restaurants d q =
           (200, Restaurant_array (map (shape d)
              (limit_offset (or_default 10000 (q_limit q)) (or_default 0 (q_offset q))
                 (sort_key r_name
                    (filter (\<lambda>r. where_ok q r = Some True \<and> spec_categories_ok d r q)
                       (restaurants d))))))
       \<and> (\<forall>r bo. q_boroughs q = Some bo \<and> bo \<noteq> [] \<and> \<not> truthy (q_status q) \<and> q_liked q = None
             \<longrightarrow> (where_ok q r = Some True \<longleftrightarrow> r_borough r = Some bo))
       \<and> (\<not> spec_active Neighborhoods q \<and> \<not> spec_active Tags q \<longrightarrow>
            get_restaurants_dev d q =
              (200, Restaurant_array (map (shape_dev d)
                 (limit_offset (or_default 100 (q_limit q)) (or_default 0 (q_offset q))
                    (sort_key r_name
                       (filter (\<lambda>r. where_ok q r = Some True \<and> spec_categories_ok d r q)
                          (restaurants d)))))))
       \<and> (\<forall>r cat v. v \<in> set (spec_values cat q) \<and> CHR ''%'' \<notin> set v \<and> CHR ''_'' \<notin> set v
             \<longrightarrow> (spec_value_matches d r cat v \<longleftrightarrow>
                  list_ex (\<lambda>l. occurs_ci v (l_name l)) (joined d cat (r_id r))))"
proof -
  have hc: "having_clauses q = category_clauses q"
    using nosearch by (simp add: having_clauses_def Let_def)
  have pe: "prepare_error (having_clauses q) = None"
    by (rule prepare_error_search [OF wf])
  have m: "matching d q =
      sort_key r_name
        (filter (\<lambda>r. where_ok q r = Some True \<and> spec_categories_ok d r q) (restaurants d))"
    by (simp add: matching_def hc having_ok_categories [OF wf])
  then have prod: "get_restaurants d q =
           (200, Restaurant_array (map (shape d)
              (limit_offset (or_default 10000 (q_limit q)) (or_default 0 (q_offset q))
                 (sort_key r_name
                    (filter (\<lambda>r. where_ok q r = Some True \<and> spec_categories_ok d r q)
                       (restaurants d))))))"
    by (simp add: get_restaurants_def pe)
  have dev: "get_restaurants_dev d q =
              (200, Restaurant_array (map (shape_dev d)
                 (limit_offset (or_default 100 (q_limit q)) (or_default 0 (q_offset q))
                    (sort_key r_name
                       (filter (\<lambda>r. where_ok q r = Some True \<and> spec_categories_ok d r q)
                          (restaurants d))))))"
    if "\<not> spec_active Neighborhoods q" "\<not> spec_active Tags q"
  proof -
    have n: "\<not> truthy (q_neighborhoods q)" "\<not> truthy (q_tags q)"
      using that by (simp_all add: spec_active_def param_of_def)
    have hd: "having_clauses_dev q = having_clauses q"
      using n by (simp add: having_clauses_dev_plain hc)
    have "matching_dev d q = matching d q"
      by (simp add: matching_dev_def matching_def hd where_ok_dev_plain [OF nosearch n(1)])
    then show ?thesis
      by (simp add: get_restaurants_dev_def hd pe m)
  qed
  have plain: "spec_value_matches d r cat v \<longleftrightarrow>
      list_ex (\<lambda>l. occurs_ci v (l_name l)) (joined d cat (r_id r))"
    if "v \<in> set (spec_values cat q)" "CHR ''%'' \<notin> set v" "CHR ''_'' \<notin> set v" for r cat v
  proof -
    have "v \<in> set (csv_list (or_default [] (param_of cat q)))"
      using that(1) by (simp add: spec_values_def)
    from csv_list_value [OF this] that(2,3) show ?thesis
      by (rule spec_value_matches_plain)
  qed
  have borough: "\<forall>r bo. q_boroughs q = Some bo \<and> bo \<noteq> [] \<and> \<not> truthy (q_status q)
      \<and> q_liked q = None \<longrightarrow> (where_ok q r = Some True \<longleftrightarrow> r_borough r = Some bo)"
    using where_ok_borough_only by blast
  show ?thesis
  proof (intro conjI)
    show "get_restaurants d q =
           (200, Restaurant_array (map (shape d)
              (limit_offset (or_default 10000 (q_limit q)) (or_default 0 (q_offset q))
                 (sort_key r_name
                    (filter (\<lambda>r. where_ok q r = Some True \<and> spec_categories_ok d r q)
                       (restaurants d))))))" by (rule prod)
    show "\<forall>r bo. q_boroughs q = Some bo \<and> bo \<noteq> [] \<and> \<not> truthy (q_status q)
      \<and> q_liked q = None \<longrightarrow> (where_ok q r = Some True \<longleftrightarrow> r_borough r = Some bo)"
      by (rule borough)
    show "\<not> spec_active Neighborhoods q \<and> \<not> spec_active Tags q \<longrightarrow>
            get_restaurants_dev d q =
              (200, Restaurant_array (map (shape_dev d)
                 (limit_offset (or_default 100 (q_limit q)) (or_default 0 (q_offset q))
                    (sort_key r_name
                       (filter (\<lambda>r. where_ok q r = Some True \<and> spec_categories_ok d r q)
                          (restaurants d))))))"
      using dev by blast
    show "\<forall>r cat v. v \<in> set (spec_values cat q) \<and> CHR ''%'' \<notin> set v \<and> CHR ''_'' \<notin> set v
             \<longrightarrow> (spec_value_matches d r cat v \<longleftrightarrow>
                  list_ex (\<lambda>l. occurs_ci v (l_name l)) (joined d cat (r_id r)))"
      using plain by blast
  qed
qed

theorem category_filters_semantics_witness:
  "\<not> truthy (q_search (no_filter\<lparr>q_cuisines := Some ''Italian,Thai'',
                                   q_boroughs := Some ''Manhattan''\<rparr>))
   \<and> spec_well_formed (no_filter\<lparr>q_cuisines := Some ''Italian,Thai'',
                                  q_boroughs := Some ''Manhattan''\<rparr>)
   \<and> get_restaurants town_db
         (no_filter\<lparr>q_cuisines := Some ''Italian,Thai'', q_boroughs := Some ''Manhattan''\<rparr>)
       = (200, Restaurant_array (map (shape town_db)
            (limit_offset 10000 0
               (sort_key r_name
                  (filter (\<lambda>r. r_borough r = Some ''Manhattan'' \<and>
                              spec_categories_ok town_db r
                                (no_filter\<lparr>q_cuisines := Some ''Italian,Thai'',
                                           q_boroughs := Some ''Manhattan''\<rparr>))
                     (restaurants town_db))))))
   \<and> listed_ids (get_restaurants town_db
         (no_filter\<lparr>q_cuisines := Some ''Italian,Thai'', q_boroughs := Some ''Manhattan''\<rparr>))
       = [4, 1, 2]"
proof -
  let ?q = "no_filter\<lparr>q_cuisines := Some ''Italian,Thai'', q_boroughs := Some ''Manhattan''\<rparr>"
  have h1: "\<not> truthy (q_search ?q)" by (simp add: no_filter_def truthy_def)
  have h2: "spec_well_formed ?q" by code_simp
  note t = category_filters_semantics [OF h1 h2, of town_db]
  have w: "where_ok ?q r = Some True \<longleftrightarrow> r_borough r = Some ''Manhattan''" for r
    using t by (simp add: no_filter_def truthy_def)
  have page: "or_default 10000 (q_limit ?q) = 10000" "or_default 0 (q_offset ?q) = 0"
    by (simp_all add: no_filter_def or_default_def)
  have "get_restaurants town_db ?q
       = (200, Restaurant_array (map (shape town_db)
            (limit_offset 10000 0
               (sort_key r_name
                  (filter (\<lambda>r. r_borough r = Some ''Manhattan'' \<and>
                              spec_categories_ok town_db r ?q)
                     (restaurants town_db))))))"
    using t by (simp only: w page)
  moreover have "listed_ids (get_restaurants town_db ?q) = [4, 1, 2]" by code_simp
  ultimately show ?thesis using h1 h2 by blast
qed

text \<open>
  The claim as stated fails: with \<^verbatim>\<open>cuisines=Italian,Thai&boroughs=Manhattan\<close> the
  response lists restaurant 4, whose only cuisine is named Thai Fusion.
\<close>

theorem italian_thai_manhattan_counterexample:
  "listed_ids (get_restaurants town_db
      (no_filter\<lparr>q_cuisines := Some ''Italian,Thai'', q_boroughs := Some ''Manhattan''\<rparr>))
     = [4, 1, 2]
   \<and> map o_cuisines (listed (get_restaurants town_db
      (no_filter\<lparr>q_cuisines := Some ''Italian,Thai'', q_boroughs := Some ''Manhattan''\<rparr>)))
     = [[''Thai Fusion''], [''Italian''], [''Thai'']]"
  by code_simp

subsection \<open>Listing with a search term\<close>

lemma limit_offset_all:
  "ofs \<le> 0 \<Longrightarrow> lmt < 0 \<or> int (length xs) \<le> lmt \<Longrightarrow> limit_offset lmt ofs xs = xs"
  by (auto simp: limit_offset_def)

text \<open>
  C3, as amended. On the production variant, for a list request with a non-empty search
  term in which every category parameter that is present names at least one non-blank
  value, consider a restaurant that passes the equality filters (borough, status, liked).
  It is among the matches if the term occurs as a case-insensitive substring in its
  name, notes, what_to_order or borough or in one of its cuisine, type, neighborhood or
  tag names, whatever the category filters say; and it is among the matches if some
  category filter is active and it satisfies all of them, whatever the text says. The
  response is the page that limit and offset cut from the matches, so the restaurant is
  in the response when they cut nothing off.
\<close>

theorem search_or_categories:
  assumes s: "q_search q = Some t" "t \<noteq> []"
    and wf: "spec_well_formed q"
    and r: "r \<in> set (restaurants d)" "where_ok q r = Some True"
  shows "get_restaurants d q =
           (200, Restaurant_array (map (shape d)
              (limit_offset (or_default 10000 (q_limit q)) (or_default 0 (q_offset q))
                 (matching d q))))
       \<and> (spec_text_match d r t \<or>
            (list_ex (\<lambda>cat. spec_active cat q) all_categories \<and> spec_categories_ok d r q)
          \<longrightarrow> r \<in> set (matching d q) \<and>
              (spec_page_covers d q \<longrightarrow> shape d r \<in> set (listed (get_restaurants d q))))"
proof -
  have tr: "truthy (q_search q)" "or_default [] (q_search q) = t"
    using s by (simp_all add: truthy_def or_default_def)
  have pe: "prepare_error (having_clauses q) = None"
    by (rule prepare_error_search [OF wf])
  have resp: "get_restaurants d q =
           (200, Restaurant_array (map (shape d)
              (limit_offset (or_default 10000 (q_limit q)) (or_default 0 (q_offset q))
                 (matching d q))))"
    by (simp add: get_restaurants_def pe)
  have mem: "r \<in> set (matching d q) \<longleftrightarrow> having_ok d r (having_clauses q)"
    using r by (simp add: matching_def)
  have hv: "having_ok d r (having_clauses q) \<longleftrightarrow>
     (list_ex (\<lambda>cat. spec_active cat q) all_categories \<and> spec_categories_ok d r q)
     \<or> group_value d r (search_group t) = Some True"
    using having_ok_search [OF wf tr(1), of d r] by (simp only: tr(2))
  have page: "shape d r \<in> set (listed (get_restaurants d q))"
    if "r \<in> set (matching d q)" "spec_page_covers d q"
  proof -
    have "limit_offset (or_default 10000 (q_limit q)) (or_default 0 (q_offset q))
        (matching d q) = matching d q"
      using that(2) by (intro limit_offset_all) (simp_all add: spec_page_covers_def)
    then have "listed (get_restaurants d q) = map (shape d) (matching d q)"
      by (simp add: resp listed_def)
    then show ?thesis using that(1) by simp
  qed
  have "r \<in> set (matching d q)"
    if "spec_text_match d r t \<or>
        (list_ex (\<lambda>cat. spec_active cat q) all_categories \<and> spec_categories_ok d r q)"
    using that text_match_search [of d r t] mem hv by blast
  then show ?thesis
    using resp page by blast
qed

theorem search_or_categories_witness:
  "q_search (no_filter\<lparr>q_search := Some ''negroni'', q_cuisines := Some ''Thai''\<rparr>)
     = Some ''negroni''
   \<and> ''negroni'' \<noteq> []
   \<and> spec_well_formed (no_filter\<lparr>q_search := Some ''negroni'', q_cuisines := Some ''Thai''\<rparr>)
   \<and> restaurants town_db ! 0 \<in> set (restaurants town_db)
   \<and> where_ok (no_filter\<lparr>q_search := Some ''negroni'', q_cuisines := Some ''Thai''\<rparr>)
        (restaurants town_db ! 0) = Some True
   \<and> spec_text_match town_db (restaurants town_db ! 0) ''negroni''
   \<and> \<not> spec_categories_ok town_db (restaurants town_db ! 0)
         (no_filter\<lparr>q_search := Some ''negroni'', q_cuisines := Some ''Thai''\<rparr>)
   \<and> spec_page_covers town_db
        (no_filter\<lparr>q_search := Some ''negroni'', q_cuisines := Some ''Thai''\<rparr>)
   \<and> restaurants town_db ! 0
       \<in> set (matching town_db
                (no_filter\<lparr>q_search := Some ''negroni'', q_cuisines := Some ''Thai''\<rparr>))
   \<and> shape town_db (restaurants town_db ! 0)
       \<in> set (listed (get_restaurants town_db
                (no_filter\<lparr>q_search := Some ''negroni'', q_cuisines := Some ''Thai''\<rparr>)))
   \<and> listed_ids (get_restaurants town_db
        (no_filter\<lparr>q_search := Some ''negroni'', q_cuisines := Some ''Thai''\<rparr>))
       = [5, 4, 1, 3, 2]"
proof -
  let ?q = "no_filter\<lparr>q_search := Some ''negroni'', q_cuisines := Some ''Thai''\<rparr>"
  let ?r = "restaurants town_db ! 0"
  have h1: "q_search ?q = Some ''negroni''" by simp
  have h2: "''negroni'' \<noteq> []" by simp
  have h3: "spec_well_formed ?q" by code_simp
  have h4: "?r \<in> set (restaurants town_db)" by (simp add: town_db_def)
  have h5: "where_ok ?q ?r = Some True" by code_simp
  have h6: "spec_text_match town_db ?r ''negroni''" by code_simp
  have h7: "\<not> spec_categories_ok town_db ?r ?q" by code_simp
  have h8: "spec_page_covers town_db ?q" by code_simp
  have h9: "listed_ids (get_restaurants town_db ?q) = [5, 4, 1, 3, 2]" by code_simp
  from search_or_categories [OF h1 h2 h3 h4 h5] h6 h8
  have "?r \<in> set (matching town_db ?q)"
    and "shape town_db ?r \<in> set (listed (get_restaurants town_db ?q))"
    by blast+
  then show ?thesis
    using h1 h2 h3 h4 h5 h6 h7 h8 h9 by blast
qed

text \<open>
  The claim as stated fails twice. On the production variant a borough filter still
  excludes restaurant 5, whose notes contain the term. On the development variant the
  search is a conjunct of the WHERE clause over name, notes and what_to_order only: with
  a cuisine filter no text match is listed, and a term that occurs only in the borough
  matches nothing.
\<close>

theorem search_or_categories_counterexample:
  "listed_ids (get_restaurants town_db
      (no_filter\<lparr>q_search := Some ''negroni'', q_boroughs := Some ''Manhattan''\<rparr>)) = [1]
   \<and> r_id (restaurants town_db ! 4) = 5
   \<and> r_notes (restaurants town_db ! 4) = Some ''negroni bar''
   \<and> spec_text_match town_db (restaurants town_db ! 4) ''negroni''
   \<and> listed_ids (get_restaurants_dev town_db
      (no_filter\<lparr>q_search := Some ''negroni'', q_cuisines := Some ''Thai''\<rparr>)) = []
   \<and> listed_ids (get_restaurants_dev town_db
      (no_filter\<lparr>q_search := Some ''Manhattan''\<rparr>)) = []"
  by code_simp

subsection \<open>Where the handlers miss the specification\<close>

text \<open>
  C1. The claim fails on the code. A PUT whose only key is \<^verbatim>\<open>tags: []\<close> is rejected
  with 400 and removes nothing. A PUT that also carries a scalar field succeeds and
  deletes the join rows of every category, supplied or omitted, because the guard
  \<^verbatim>\<open>list.length >= 0\<close> always holds and an omitted list defaults to \<^verbatim>\<open>[]\<close>:
  restaurant 1 loses its cuisine Italian.
\<close>

theorem put_clears_omitted_categories:
  "put_restaurant sch brunch_db 1 (empty_body\<lparr>b_tags := Some []\<rparr>)
     = ((400, Error_message ''No valid fields to update''), brunch_db)
   \<and> fst (put_restaurant sch brunch_db 1 (empty_body\<lparr>b_name := Some ''Lupa'', b_tags := Some []\<rparr>))
     = (200, Message ''Restaurant updated successfully'')
   \<and> join_tab brunch_db Cuisines = [(1, 1)]
   \<and> join_tab (snd (put_restaurant sch brunch_db 1
        (empty_body\<lparr>b_name := Some ''Lupa'', b_tags := Some []\<rparr>))) Cuisines = []
   \<and> join_tab (snd (put_restaurant sch brunch_db 1
        (empty_body\<lparr>b_name := Some ''Lupa'', b_tags := Some []\<rparr>))) Tags = []"
  by (simp add: put_restaurant_def empty_body_def updates_def field_update_def or_default_def
      brunch_db_def changes_for_def new_row_def updateCuisinesTypesNeighborhoodsAndTags_def
      update_category_def and_then_def Let_def delete_links_def)

text \<open>
  C4. The claim fails on the code when the request supplies association lists only: the
  UPDATE that detects a missing id is skipped, so a PUT to the absent id 999 answers 200
  and commits a lookup row and a join row for a restaurant that does not exist.
\<close>

theorem put_missing_id_with_list_commits:
  "fst (put_restaurant sch empty_db 999 (empty_body\<lparr>b_cuisines := Some [''Thai'']\<rparr>))
     = (200, Message ''Restaurant updated successfully'')
   \<and> restaurants (snd (put_restaurant sch empty_db 999
        (empty_body\<lparr>b_cuisines := Some [''Thai'']\<rparr>))) = []
   \<and> lookup_tab (snd (put_restaurant sch empty_db 999
        (empty_body\<lparr>b_cuisines := Some [''Thai'']\<rparr>))) Cuisines
     = [\<lparr>l_id = 1, l_name = ''Thai'', l_color = None\<rparr>]
   \<and> join_tab (snd (put_restaurant sch empty_db 999
        (empty_body\<lparr>b_cuisines := Some [''Thai'']\<rparr>))) Cuisines = [(999, 1)]"
  by (simp add: put_restaurant_def empty_body_def updates_def field_update_def or_default_def
      empty_db_def updateCuisinesTypesNeighborhoodsAndTags_def
      update_category_def and_then_def Let_def delete_links_def insert_or_ignore_def
      insert_link_def next_rowid_def trim_def is_space_def)

text \<open>
  C9. The claim fails on the code once a PUT to an absent id has left a join row behind.
  The PUT of \<^verbatim>\<open>{cuisines: ["Thai"]}\<close> to the absent id 1 skips the UPDATE and with it
  the test for a missing id: it answers 200 and commits the row (1, 1) of
  restaurant_cuisines. The POST of \<^verbatim>\<open>{name: "Joe's", cuisines: ["Diner"]}\<close> then
  receives the id 1, and the GET of 1 returns the cuisines \<^verbatim>\<open>["Thai", "Diner"]\<close>.
\<close>

theorem joes_diner_after_list_only_put:
  "fst (put_restaurant sch empty_db 1 (empty_body\<lparr>b_cuisines := Some [''Thai'']\<rparr>))
     = (200, Message ''Restaurant updated successfully'')
   \<and> restaurants (snd (put_restaurant sch empty_db 1
        (empty_body\<lparr>b_cuisines := Some [''Thai'']\<rparr>))) = []
   \<and> fst (post_restaurant sch
        (snd (put_restaurant sch empty_db 1 (empty_body\<lparr>b_cuisines := Some [''Thai'']\<rparr>)))
        (empty_body\<lparr>b_name := Some ''Joe's'', b_cuisines := Some [''Diner'']\<rparr>))
     = (200, Id_message 1 ''Restaurant created successfully'')
   \<and> map o_cuisines (fetched (get_restaurant
        (snd (post_restaurant sch
           (snd (put_restaurant sch empty_db 1 (empty_body\<lparr>b_cuisines := Some [''Thai'']\<rparr>)))
           (empty_body\<lparr>b_name := Some ''Joe's'', b_cuisines := Some [''Diner'']\<rparr>))) 1))
     = [[''Thai'', ''Diner'']]"
  by (auto simp: put_restaurant_def post_restaurant_def get_restaurant_def fetched_def
      empty_body_def updates_def field_update_def or_default_def
      empty_db_def updateCuisinesTypesNeighborhoodsAndTags_def handleRestaurantRelationships_def
      update_category_def and_then_def Let_def delete_links_def insert_or_ignore_def
      insert_link_def next_rowid_def trim_def is_space_def shape_def new_row_def
      agg_names_def agg_tags_def joined_def group_concat_def distinct_first_def non_null_def
      split_list_def)

text \<open>
  C5. The claim fails on the code: create does not skip a name that is blank after
  trimming. It stores a lookup row with the empty name and a join row to it.
\<close>

theorem post_blank_list_name_is_stored:
  "fst (post_restaurant sch empty_db
          (empty_body\<lparr>b_name := Some ''Lupa'', b_cuisines := Some [''  '', ''Thai'']\<rparr>))
     = (200, Id_message 1 ''Restaurant created successfully'')
   \<and> lookup_tab (snd (post_restaurant sch empty_db
          (empty_body\<lparr>b_name := Some ''Lupa'', b_cuisines := Some [''  '', ''Thai'']\<rparr>))) Cuisines
     = [\<lparr>l_id = 1, l_name = [], l_color = None\<rparr>, \<lparr>l_id = 2, l_name = ''Thai'', l_color = None\<rparr>]
   \<and> join_tab (snd (post_restaurant sch empty_db
          (empty_body\<lparr>b_name := Some ''Lupa'', b_cuisines := Some [''  '', ''Thai'']\<rparr>))) Cuisines
     = [(1, 1), (1, 2)]"
  by (simp add: post_restaurant_def empty_body_def empty_db_def or_default_def trim_def
      is_space_def next_rowid_def handleRestaurantRelationships_def and_then_def
      insert_or_ignore_def insert_link_def Let_def)

text \<open>
  C6. The claim fails on the code: the join row is written by a plain INSERT. For the
  list \<^verbatim>\<open>["Italian","Italian"]\<close> the request fails with 500 and is rolled back when
  the join table declares the pair unique, and stores the pair twice when it does not.
\<close>

theorem post_duplicate_cuisine:
  "post_restaurant sch empty_db
     (empty_body\<lparr>b_name := Some ''Lupa'', b_cuisines := Some [''Italian'', ''Italian'']\<rparr>)
   = (if pair_unique sch then ((500, Sql_error_message Constraint_failed), empty_db)
      else ((200, Id_message 1 ''Restaurant created successfully''),
         \<lparr>restaurants = [new_row 1 ''Lupa''
             (empty_body\<lparr>b_name := Some ''Lupa'', b_cuisines := Some [''Italian'', ''Italian'']\<rparr>)],
          lookup_tab = (\<lambda>_. [])(Cuisines := [\<lparr>l_id = 1, l_name = ''Italian'', l_color = None\<rparr>]),
          join_tab = (\<lambda>_. [])(Cuisines := [(1, 1), (1, 1)])\<rparr>))"
  by (simp add: post_restaurant_def empty_body_def empty_db_def or_default_def trim_def
      is_space_def next_rowid_def handleRestaurantRelationships_def and_then_def
      insert_or_ignore_def insert_link_def Let_def)

end
